theory Spec2Isabelle
  imports Main
begin

section \<open>A shallow embedding of Shell.c\<close>

text \<open>
  The shell reads a line, parses it into pipeline stages (\<open>parse_command\<close>) and runs
  them (\<open>execute_commands\<close>). A C string is modelled by the list of its characters
  before the terminating NUL, a nullable \<open>char *\<close> by a \<open>string option\<close>, and a
  NULL-terminated \<open>char *args[]\<close> by the list of its entries before the first NULL.
\<close>

subsection \<open>Constants and the Command structure\<close>

definition MAX_ARGS :: nat where
  "MAX_ARGS = 128"

definition MAX_PIPE :: nat where
  "MAX_PIPE = 16"

record Command =
  args :: "string list"
  input_file :: "string option"
  output_file :: "string option"
  background :: bool

subsection \<open>Library functions of C used by the parser\<close>

text \<open>\<open>isspace\<close> in the C locale (the program never calls \<open>setlocale\<close>): space, and
  the five control characters from horizontal tab to carriage return.\<close>

definition isspace :: "char \<Rightarrow> bool" where
  "isspace c \<longleftrightarrow> c \<in> set [CHR '' '', CHR 0x09, CHR 0x0A, CHR 0x0B, CHR 0x0C, CHR 0x0D]"

text \<open>
  \<open>strsep(&p, delims)\<close>: with \<open>p = NULL\<close> it returns NULL. Otherwise it returns the
  old \<open>p\<close>, cut at the first delimiter (which is overwritten by NUL), and moves \<open>p\<close>
  behind that delimiter; when there is no delimiter the whole rest is returned and
  \<open>p\<close> becomes NULL. The result is the pair of the token and the new \<open>p\<close>.
\<close>

fun strsep :: "string \<Rightarrow> string option \<Rightarrow> string option \<times> string option" where
  "strsep delims None = (None, None)"
| "strsep delims (Some s) =
     (case dropWhile (\<lambda>c. c \<notin> set delims) s of
        [] \<Rightarrow> (Some s, None)
      | d # r \<Rightarrow> (Some (takeWhile (\<lambda>c. c \<notin> set delims) s), Some r))"

text \<open>The number of characters still reachable through a \<open>strsep\<close> cursor, plus one
  for a cursor that is not NULL: every \<open>strsep\<close> call that returns a token lowers it.\<close>

fun ptr_size :: "string option \<Rightarrow> nat" where
  "ptr_size None = 0"
| "ptr_size (Some s) = Suc (length s)"

subsection \<open>trim_whitespace\<close>

text \<open>The second loop of \<open>trim_whitespace\<close>: \<open>end\<close> points at the last character and
  moves left, writing NUL, while \<open>end > str\<close> and \<open>*end\<close> is a space.\<close>

function strip_trailing :: "string \<Rightarrow> string" where
  "strip_trailing s =
     (if 1 < length s \<and> isspace (last s) then strip_trailing (butlast s) else s)"
  by pat_completeness auto
termination
  by (relation "measure length") auto

declare strip_trailing.simps [simp del]

definition trim_whitespace :: "string \<Rightarrow> string" where
  "trim_whitespace str0 =
     (let str = dropWhile isspace str0
      in if str = [] then str else strip_trailing str)"

subsection \<open>parse_command\<close>

text \<open>Every diagnostic \<open>parse_command\<close> prints to stderr, one constructor per
  \<open>fprintf\<close>; the two validation messages carry the value printed for \<open>%d\<close>.\<close>

datatype parse_error =
    Unexpected_pipe
  | Too_many_segments
  | Missing_command_in_pipeline
  | Missing_command
  | Unexpected_input_token
  | Input_twice
  | Unexpected_output_token
  | Output_twice
  | Amp_not_at_end
  | Unexpected_amp
  | Too_many_arguments
  | Input_not_allowed nat
  | Output_not_allowed nat

fun show_nat :: "nat \<Rightarrow> string" where
  "show_nat n =
     (if n < 10 then [char_of (48 + n)]
      else show_nat (n div 10) @ [char_of (48 + n mod 10)])"

fun error_message :: "parse_error \<Rightarrow> string" where
  "error_message Unexpected_pipe = ''shell: syntax error near unexpected token '' @ [CHR 0x27] @ ''|'' @ [CHR 0x27, CHR 0x0A]"
| "error_message Too_many_segments =
     ''shell: too many pipeline segments (max '' @ show_nat MAX_PIPE @ '')'' @ [CHR 0x0A]"
| "error_message Missing_command_in_pipeline = ''missing command in pipeline'' @ [CHR 0x0A]"
| "error_message Missing_command = ''missing command'' @ [CHR 0x0A]"
| "error_message Unexpected_input_token =
     ''syntax error near unexpected token '' @ [CHR 0x27] @ ''<'' @ [CHR 0x27, CHR 0x0A]"
| "error_message Input_twice = ''cannot redirect input more than once'' @ [CHR 0x0A]"
| "error_message Unexpected_output_token =
     ''syntax error near unexpected token '' @ [CHR 0x27] @ ''>'' @ [CHR 0x27, CHR 0x0A]"
| "error_message Output_twice = ''cannot redirect output more than once'' @ [CHR 0x0A]"
| "error_message Amp_not_at_end =
     [CHR 0x27] @ ''&'' @ [CHR 0x27] @ '' can only appear at end of command'' @ [CHR 0x0A]"
| "error_message Unexpected_amp =
     ''syntax error near unexpected token '' @ [CHR 0x27] @ ''&'' @ [CHR 0x27, CHR 0x0A]"
| "error_message Too_many_arguments =
     ''too many arguments (max '' @ show_nat (MAX_ARGS - 1) @ '')'' @ [CHR 0x0A]"
| "error_message (Input_not_allowed k) =
     ''input redirection not allowed for command '' @ show_nat k @ '' in pipeline'' @ [CHR 0x0A]"
| "error_message (Output_not_allowed k) =
     ''output redirection not allowed for command '' @ show_nat k @ '' in pipeline'' @ [CHR 0x0A]"

text \<open>The first loop (lines 86 to 97): split at \<open>|\<close>. \<open>segment_count\<close> is the length
  of \<open>segments\<close>.\<close>

function split_pipes :: "string option \<Rightarrow> string list \<Rightarrow> parse_error + string list" where
  "split_pipes line_ptr segments =
     (case strsep ''|'' line_ptr of
        (None, p) \<Rightarrow> Inr segments
      | (Some segment, p) \<Rightarrow>
          if segment = [] then Inl Unexpected_pipe
          else if MAX_PIPE \<le> length segments then Inl Too_many_segments
          else split_pipes p (segments @ [segment]))"
  by pat_completeness auto

lemma strsep_smaller:
  "strsep delims p = (Some t, p') \<Longrightarrow> ptr_size p' < ptr_size p"
proof (cases p)
  case None
  assume "strsep delims p = (Some t, p')"
  with None show ?thesis by simp
next
  case (Some s)
  assume a: "strsep delims p = (Some t, p')"
  have "length (dropWhile (\<lambda>c. c \<notin> set delims) s) \<le> length s"
    by (rule length_dropWhile_le)
  with a Some show ?thesis
    by (auto split: list.splits)
qed

termination split_pipes
  by (relation "measure (\<lambda>(p, segs). ptr_size p)") (auto dest: strsep_smaller [OF sym])

declare split_pipes.simps [simp del]

text \<open>The inner loops of lines 134 to 137 and 151 to 154: the next token that is not
  empty, or NULL when the segment is used up.\<close>

function next_token :: "string option \<Rightarrow> string option \<times> string option" where
  "next_token token_ptr =
     (case strsep [CHR '' '', CHR 0x09] token_ptr of
        (None, p) \<Rightarrow> (None, p)
      | (Some token, p) \<Rightarrow> if token = [] then next_token p else (Some token, p))"
  by pat_completeness auto
termination
  by (relation "measure ptr_size") (auto dest: strsep_smaller [OF sym])

declare next_token.simps [simp del]

text \<open>The tokenizer loop of one segment (lines 127 to 196). \<open>is_last\<close> is
  \<open>i == segment_count - 1\<close>; \<open>arg_index\<close> is the length of \<open>args cmd\<close>. The result
  is the diagnostic, if the loop returned early, and the Command as far as it was
  filled in.\<close>

function token_loop ::
  "bool \<Rightarrow> string option \<Rightarrow> Command \<Rightarrow> nat \<Rightarrow> nat \<Rightarrow> parse_error option \<times> Command" where
  "token_loop is_last token_ptr cmd input_count output_count =
     (case strsep [CHR '' '', CHR 0x09] token_ptr of
        (None, p) \<Rightarrow> (None, cmd)
      | (Some token, p) \<Rightarrow>
          if token = [] then token_loop is_last p cmd input_count output_count
          else if token = ''<'' then
            (case next_token p of
               (None, p') \<Rightarrow> (Some Unexpected_input_token, cmd)
             | (Some file, p') \<Rightarrow>
                 if 0 < input_count then (Some Input_twice, cmd)
                 else token_loop is_last p' (cmd\<lparr>input_file := Some file\<rparr>)
                        (Suc input_count) output_count)
          else if token = ''>'' then
            (case next_token p of
               (None, p') \<Rightarrow> (Some Unexpected_output_token, cmd)
             | (Some file, p') \<Rightarrow>
                 if 0 < output_count then (Some Output_twice, cmd)
                 else token_loop is_last p' (cmd\<lparr>output_file := Some file\<rparr>)
                        input_count (Suc output_count))
          else if token = ''&'' then
            (if \<not> is_last then (Some Amp_not_at_end, cmd)
             else if (case p of None \<Rightarrow> True | Some remain \<Rightarrow> list_all isspace remain)
               then (None, cmd\<lparr>background := True\<rparr>)
               else (Some Unexpected_amp, cmd))
          else if length (args cmd) < MAX_ARGS - 1
            then token_loop is_last p (cmd\<lparr>args := args cmd @ [token]\<rparr>)
                   input_count output_count
            else (Some Too_many_arguments, cmd))"
  by pat_completeness auto

lemma next_token_smaller:
  "next_token p = (Some t, p') \<Longrightarrow> ptr_size p' < ptr_size p"
proof (induction p rule: next_token.induct)
  case (1 token_ptr)
  obtain tok q where sq: "strsep [CHR '' '', CHR 0x09] token_ptr = (tok, q)"
    by (cases "strsep [CHR '' '', CHR 0x09] token_ptr")
  show ?case
  proof (cases tok)
    case None
    with sq "1.prems" show ?thesis
      by (simp add: next_token.simps [of token_ptr])
  next
    case (Some token)
    with sq have less: "ptr_size q < ptr_size token_ptr"
      by (auto dest: strsep_smaller)
    show ?thesis
    proof (cases "token = []")
      case True
      with sq Some "1.prems" have "next_token q = (Some t, p')"
        by (simp add: next_token.simps [of token_ptr])
      with "1.IH" [OF sq [symmetric] Some True] have "ptr_size p' < ptr_size q"
        by simp
      with less show ?thesis by simp
    next
      case False
      with sq Some "1.prems" have "p' = q"
        by (simp add: next_token.simps [of token_ptr])
      with less show ?thesis by simp
    qed
  qed
qed

termination token_loop
proof (relation "measure (\<lambda>(is_last, p, cmd, ic, oc). ptr_size p)", goal_cases)
  case 1
  show ?case by simp
next
  case (2 is_last token_ptr cmd input_count output_count x y x2)
  then show ?case by (auto dest: strsep_smaller [OF sym])
next
  case (3 is_last token_ptr cmd input_count output_count x y x2 xa ya x2a)
  from 3(1,2) have "ptr_size y < ptr_size token_ptr"
    by (auto dest: strsep_smaller [OF sym])
  moreover from 3 have "ptr_size ya < ptr_size y"
    by (metis next_token_smaller)
  ultimately show ?case by simp
next
  case (4 is_last token_ptr cmd input_count output_count x y x2 xa ya x2a)
  from 4(1,2) have "ptr_size y < ptr_size token_ptr"
    by (auto dest: strsep_smaller [OF sym])
  moreover from 4 have "ptr_size ya < ptr_size y"
    by (metis next_token_smaller)
  ultimately show ?case by simp
next
  case (5 is_last token_ptr cmd input_count output_count x y x2)
  then show ?case by (auto dest: strsep_smaller [OF sym])
qed

declare token_loop.simps [simp del]

text \<open>The initial value of a Command (lines 114 to 119): no redirection, foreground,
  every \<open>args\<close> entry NULL.\<close>

definition empty_command :: Command where
  "empty_command = \<lparr>args = [], input_file = None, output_file = None, background = False\<rparr>"

text \<open>The second loop (lines 100 to 203), from index \<open>i\<close> on, over the segments not
  yet parsed. \<open>commands\<close> is the caller's array; \<open>commands[i]\<close> is written in place,
  also when the tokenizer stops with an error.\<close>

fun parse_segments ::
  "nat \<Rightarrow> nat \<Rightarrow> string list \<Rightarrow> Command list \<Rightarrow> parse_error option \<times> Command list" where
  "parse_segments segment_count i [] commands = (None, commands)"
| "parse_segments segment_count i (segment # rest) commands =
     (let seg = trim_whitespace segment in
      if seg = [] then
        (Some (if 1 < segment_count then Missing_command_in_pipeline else Missing_command),
         commands)
      else
        (case token_loop (i = segment_count - 1) (Some seg) empty_command 0 0 of
           (Some e, cmd) \<Rightarrow> (Some e, commands[i := cmd])
         | (None, cmd) \<Rightarrow>
             if args cmd = [] then (Some Missing_command, commands[i := cmd])
             else parse_segments segment_count (Suc i) rest (commands[i := cmd])))"

text \<open>The validation loop (lines 207 to 216), from index \<open>i\<close> on, over the stages
  not yet checked.\<close>

fun validate_redirection :: "nat \<Rightarrow> nat \<Rightarrow> Command list \<Rightarrow> parse_error option" where
  "validate_redirection segment_count i [] = None"
| "validate_redirection segment_count i (c # cs) =
     (if i \<noteq> 0 \<and> input_file c \<noteq> None then Some (Input_not_allowed (i + 1))
      else if i \<noteq> segment_count - 1 \<and> output_file c \<noteq> None
        then Some (Output_not_allowed (i + 1))
      else validate_redirection segment_count (Suc i) cs)"

text \<open>What a call of \<open>parse_command\<close> leaves behind: the value returned, the
  diagnostic printed to stderr (if any), the caller's \<open>commands\<close> array and the
  caller's \<open>num_commands\<close> variable.\<close>

record parse_result =
  ret :: int
  diag :: "parse_error option"
  commands_out :: "Command list"
  num_out :: int

definition parse_failed :: "parse_error \<Rightarrow> Command list \<Rightarrow> int \<Rightarrow> parse_result" where
  "parse_failed e commands num_commands =
     \<lparr>ret = - 1, diag = Some e, commands_out = commands, num_out = num_commands\<rparr>"

definition parse_command :: "string option \<Rightarrow> Command list \<Rightarrow> int \<Rightarrow> parse_result" where
  "parse_command input commands num_commands =
     (case input of
        None \<Rightarrow> \<lparr>ret = - 1, diag = None, commands_out = commands, num_out = num_commands\<rparr>
      | Some line \<Rightarrow>
          (case split_pipes (Some line) [] of
             Inl e \<Rightarrow> parse_failed e commands num_commands
           | Inr segments \<Rightarrow>
               (case parse_segments (length segments) 0 segments commands of
                  (Some e, commands') \<Rightarrow> parse_failed e commands' num_commands
                | (None, commands') \<Rightarrow>
                    (case (if 1 < length segments
                           then validate_redirection (length segments) 0
                                  (take (length segments) commands')
                           else None) of
                       Some e \<Rightarrow> parse_failed e commands' num_commands
                     | None \<Rightarrow>
                         \<lparr>ret = 0, diag = None, commands_out = commands',
                          num_out = int (length segments)\<rparr>))))"

text \<open>The stages a successful call hands over: the first \<open>num_commands\<close> entries of
  the array.\<close>

definition pipeline :: "parse_result \<Rightarrow> Command list" where
  "pipeline r = take (nat (num_out r)) (commands_out r)"

subsection \<open>The operating system as seen by the shell\<close>

text \<open>
  The shell talks to the kernel through system calls. The model records every call,
  in order, as an event, and takes the kernel's answers from an \<open>os\<close> record: the
  answers are inputs of the model, since the program cannot choose them. \<open>fork\<close>
  returns twice; \<open>fork_result os i\<close> is the value seen by the process whose run is
  followed (negative: failure, \<open>0\<close>: this process is the new child, otherwise the
  parent holding the child's pid), for the \<open>fork\<close> of loop round \<open>i\<close>.
\<close>

datatype open_mode = O_RDONLY | O_WRONLY_CREAT_TRUNC

datatype event =
    Write_stderr string
  | Write_stdout string
  | Print_job "int option"
  | Call_perror string
  | Call_chdir string
  | Call_pipe
  | Call_fork
  | Call_close int
  | Call_dup2 int int
  | Call_open string open_mode
  | Call_execvp "string option" "string list"
  | Call_exit int
  | Call_waitpid int
  | Call_waitpid_nohang

record os =
  isatty_stdin :: bool
  getenv_HOME :: "string option"
  chdir_result :: "string \<Rightarrow> string \<Rightarrow> string + string"
  pipe_result :: "nat \<Rightarrow> (int \<times> int) option"
  fork_result :: "nat \<Rightarrow> int"
  open_result :: "string \<Rightarrow> open_mode \<Rightarrow> int option"
  dup2_error :: "int \<Rightarrow> int \<Rightarrow> string option"
  execvp_found :: "string \<Rightarrow> bool"
  reaped :: nat

text \<open>
  \<open>chdir_result os cwd dir\<close> is \<open>Inr\<close> the new working directory when \<open>chdir(dir)\<close>
  succeeds in \<open>cwd\<close>, and \<open>Inl\<close> the text of \<open>strerror(errno)\<close> when it fails;
  \<open>dup2_error\<close> is that text for a failing \<open>dup2\<close>; \<open>open_result\<close> is the new
  descriptor, or \<open>None\<close> for a negative return; \<open>reaped\<close> is the number of finished
  children \<open>waitpid(-1, NULL, WNOHANG)\<close> collects before it returns a value that is
  not positive.

  A call of \<open>execute_commands\<close> ends in one of three ways: it returns to \<open>main\<close>, or
  (in a child) the process exits, or (in a child) \<open>execvp\<close> replaces the program.
\<close>

datatype outcome = Returns int | Child_exits int | Child_runs string "string list"

subsection \<open>redirect_io\<close>

definition redirect_input :: "os \<Rightarrow> Command \<Rightarrow> int \<times> event list" where
  "redirect_input os cmd =
     (case input_file cmd of
        None \<Rightarrow> (0, [])
      | Some path \<Rightarrow>
          (case open_result os path O_RDONLY of
             None \<Rightarrow>
               (- 1, [Call_open path O_RDONLY, Write_stderr (path @ '' : File not found'' @ [CHR 0x0A])])
           | Some fd \<Rightarrow>
               (case dup2_error os fd 0 of
                  Some reason \<Rightarrow>
                    (- 1, [Call_open path O_RDONLY, Call_dup2 fd 0,
                           Write_stderr (''error duplicating file descriptor for input: '' @
                             reason @ [CHR 0x0A]),
                           Call_close fd])
                | None \<Rightarrow> (0, [Call_open path O_RDONLY, Call_dup2 fd 0, Call_close fd]))))"

definition redirect_output :: "os \<Rightarrow> Command \<Rightarrow> int \<times> event list" where
  "redirect_output os cmd =
     (case output_file cmd of
        None \<Rightarrow> (0, [])
      | Some path \<Rightarrow>
          (case open_result os path O_WRONLY_CREAT_TRUNC of
             None \<Rightarrow>
               (- 1, [Call_open path O_WRONLY_CREAT_TRUNC,
                      Write_stderr (path @ '': Cannot create file'' @ [CHR 0x0A])])
           | Some fd \<Rightarrow>
               (case dup2_error os fd 1 of
                  Some reason \<Rightarrow>
                    (- 1, [Call_open path O_WRONLY_CREAT_TRUNC, Call_dup2 fd 1,
                           Write_stderr (''error duplicating file descriptor for output: '' @
                             reason @ [CHR 0x0A]),
                           Call_close fd])
                | None \<Rightarrow>
                    (0, [Call_open path O_WRONLY_CREAT_TRUNC, Call_dup2 fd 1, Call_close fd]))))"

definition redirect_io :: "os \<Rightarrow> Command \<Rightarrow> int \<times> event list" where
  "redirect_io os cmd =
     (case redirect_input os cmd of
        (r1, evs1) \<Rightarrow>
          if r1 \<noteq> 0 then (- 1, evs1)
          else (case redirect_output os cmd of (r2, evs2) \<Rightarrow> (r2, evs1 @ evs2)))"

subsection \<open>execute_commands\<close>

text \<open>The \<open>cd\<close> built-in (lines 283 to 294). \<open>args[1]\<close> is NULL when the argument
  list has one entry.\<close>

definition builtin_cd :: "os \<Rightarrow> Command \<Rightarrow> string \<Rightarrow> outcome \<times> string \<times> event list" where
  "builtin_cd os cmd cwd =
     (let dir = (case tl (args cmd) of
                   a # rest \<Rightarrow> a
                 | [] \<Rightarrow> (case getenv_HOME os of Some home \<Rightarrow> home | None \<Rightarrow> ''.''))
      in case chdir_result os cwd dir of
           Inr cwd' \<Rightarrow> (Returns 1, cwd', [Call_chdir dir])
         | Inl reason \<Rightarrow>
             (Returns 1, cwd,
              [Call_chdir dir,
               Write_stderr (''cd: '' @ (case tl (args cmd) of a # rest \<Rightarrow> a | [] \<Rightarrow> dir) @
                 '': '' @ reason @ [CHR 0x0A])]))"

text \<open>The child's branch of the loop body (lines 323 to 344). With an empty
  argument list \<open>execvp\<close> is handed a NULL file name and fails; the message then prints
  a NULL pointer with \<open>%s\<close>, which glibc renders as \<open>(null)\<close>.\<close>

definition child_process ::
  "os \<Rightarrow> Command \<Rightarrow> bool \<Rightarrow> int \<Rightarrow> int \<times> int \<Rightarrow> outcome \<times> event list" where
  "child_process os cmd has_next prev_fd pipefd =
     (let wiring =
            (if prev_fd \<noteq> - 1 then [Call_dup2 prev_fd 0] else []) @
            (if has_next then [Call_dup2 (snd pipefd) 1] else []) @
            (if prev_fd \<noteq> - 1 then [Call_close prev_fd] else []) @
            (if has_next then [Call_close (fst pipefd), Call_close (snd pipefd)] else [])
      in case redirect_io os cmd of
           (r, evs) \<Rightarrow>
             if r \<noteq> 0 then (Child_exits 1, wiring @ evs @ [Call_exit 1])
             else
               (case args cmd of
                  [] \<Rightarrow>
                    (Child_exits 127,
                     wiring @ evs @
                     [Call_execvp None [],
                      Write_stderr (''(null): Command not found'' @ [CHR 0x0A]), Call_exit 127])
                | file # rest \<Rightarrow>
                    if execvp_found os file
                    then (Child_runs file (args cmd),
                          wiring @ evs @ [Call_execvp (Some file) (args cmd)])
                    else (Child_exits 127,
                          wiring @ evs @
                          [Call_execvp (Some file) (args cmd),
                           Write_stderr (file @ '': Command not found'' @ [CHR 0x0A]),
                           Call_exit 127])))"

text \<open>The loop of lines 303 to 356 from round \<open>i\<close> on. \<open>pids\<close> holds the entries
  \<open>pids[0 .. launched - 1]\<close>. The result is \<open>Inl\<close> when this process turned out to be
  a child, and \<open>Inr\<close> the values of \<open>prev_fd\<close> and \<open>pids\<close> when the loop is left in the
  parent (at its end or by a \<open>break\<close>). In the last round \<open>pipefd\<close> is not
  initialised and not used.\<close>

function spawn_loop ::
  "os \<Rightarrow> Command list \<Rightarrow> nat \<Rightarrow> nat \<Rightarrow> int \<Rightarrow> int list \<Rightarrow> event list \<Rightarrow>
     (outcome \<times> event list) + (int \<times> int list \<times> event list)" where
  "spawn_loop os commands num_commands i prev_fd pids evs =
     (if i < num_commands then
        (let has_next = (i < num_commands - 1) in
         case (if has_next then pipe_result os i else Some (- 1, - 1)) of
           None \<Rightarrow> Inr (prev_fd, pids, evs @ [Call_pipe, Call_perror ''shell: pipe''])
         | Some pipefd \<Rightarrow>
             (let pid = fork_result os i;
                  evs1 = evs @ (if has_next then [Call_pipe] else []) @ [Call_fork]
              in if pid < 0 then
                   Inr (prev_fd, pids,
                        evs1 @ [Call_perror ''shell: fork''] @
                        (if has_next then [Call_close (fst pipefd), Call_close (snd pipefd)]
                         else []))
                 else if pid = 0 then
                   (case child_process os (commands ! i) has_next prev_fd pipefd of
                      (out, cevs) \<Rightarrow> Inl (out, evs1 @ cevs))
                 else
                   spawn_loop os commands num_commands (Suc i)
                     (if has_next then fst pipefd else prev_fd)
                     (pids @ [pid])
                     (evs1 @ (if prev_fd \<noteq> - 1 then [Call_close prev_fd] else []) @
                      (if has_next then [Call_close (snd pipefd)] else []))))
      else Inr (prev_fd, pids, evs))"
  by pat_completeness auto
termination
  by (relation "measure (\<lambda>(os, commands, num_commands, i, prev_fd, pids, evs). num_commands - i)")
    auto

declare spawn_loop.simps [simp del]

text \<open>Lines 298 to 372. When no child was launched and the last stage is a
  background stage, the program prints \<open>pids[-1]\<close>, a value it never wrote:
  \<open>Print_job None\<close>.\<close>

definition run_external ::
  "os \<Rightarrow> Command list \<Rightarrow> int \<Rightarrow> string \<Rightarrow> outcome \<times> string \<times> event list" where
  "run_external os commands num_commands cwd =
     (case spawn_loop os commands (nat num_commands) 0 (- 1) [] [] of
        Inl (out, evs) \<Rightarrow> (out, cwd, evs)
      | Inr (prev_fd, pids, evs) \<Rightarrow>
          (let evs1 = evs @ (if prev_fd \<noteq> - 1 then [Call_close prev_fd] else [])
           in if background (commands ! (nat num_commands - 1))
              then (Returns 1, cwd,
                    evs1 @ [Print_job (if pids = [] then None else Some (last pids))])
              else (Returns 1, cwd, evs1 @ map Call_waitpid pids)))"

definition execute_commands ::
  "os \<Rightarrow> Command list \<Rightarrow> int \<Rightarrow> string \<Rightarrow> outcome \<times> string \<times> event list" where
  "execute_commands os commands num_commands cwd =
     (if num_commands \<le> 0 then (Returns 1, cwd, [])
      else if num_commands = 1 then
        (let cmd = commands ! 0
         in if args cmd = [] then (Returns 1, cwd, [])
            else if hd (args cmd) = ''exit'' then (Returns 2, cwd, [])
            else if hd (args cmd) = ''cd'' then builtin_cd os cmd cwd
            else run_external os commands num_commands cwd)
      else run_external os commands num_commands cwd)"

subsection \<open>main\<close>

text \<open>The variables of \<open>main\<close> that live across loop rounds, and the working
  directory of the process.\<close>

record shell =
  main_commands :: "Command list"
  main_num_commands :: int
  main_status :: int
  main_cwd :: string

datatype control = Continue_loop | Break_loop | Became_child outcome

text \<open>The bytes \<open>getline\<close> stored, read as a C string: up to the first NUL.\<close>

definition c_string :: "string \<Rightarrow> string" where
  "c_string bytes = takeWhile (\<lambda>c. c \<noteq> CHR 0x00) bytes"

text \<open>One round of the loop of \<open>main\<close> (lines 390 to 429). The input is the line
  \<open>getline\<close> read, with its newline, or \<open>None\<close> at end of input.\<close>

definition main_step :: "os \<Rightarrow> shell \<Rightarrow> string option \<Rightarrow> control \<times> shell \<times> event list" where
  "main_step os sh input =
     (let prompt = (if isatty_stdin os then [Write_stdout ''$ ''] else [])
      in case input of
           None \<Rightarrow>
             (Break_loop, sh,
              prompt @ (if isatty_stdin os then [Write_stdout [CHR 0x0A]] else []))
         | Some bytes \<Rightarrow>
             (let input_line =
                    c_string (if bytes \<noteq> [] \<and> last bytes = CHR 0x0A then butlast bytes
                              else bytes);
                  trimmed = trim_whitespace input_line
              in if trimmed = [] then (Continue_loop, sh, prompt)
                 else
                   (let r = parse_command (Some trimmed) (main_commands sh) (main_num_commands sh);
                        sh1 = sh\<lparr>main_commands := commands_out r, main_num_commands := num_out r\<rparr>;
                        evs = prompt @
                          (case diag r of None \<Rightarrow> [] | Some e \<Rightarrow> [Write_stderr (error_message e)])
                    in if ret r \<noteq> 0 then (Continue_loop, sh1, evs)
                       else
                         (case execute_commands os (main_commands sh1) (main_num_commands sh1) (main_cwd sh1) of
                            (Returns st, cwd', evs2) \<Rightarrow>
                              if st = 2
                              then (Break_loop, sh1\<lparr>main_status := st, main_cwd := cwd'\<rparr>, evs @ evs2)
                              else (Continue_loop, sh1\<lparr>main_status := st, main_cwd := cwd'\<rparr>,
                                    evs @ evs2 @ replicate (Suc (reaped os)) Call_waitpid_nohang)
                          | (out, cwd', evs2) \<Rightarrow> (Became_child out, sh1, evs @ evs2)))))"

subsection \<open>Example data\<close>

text \<open>A kernel in which every call succeeds, \<open>/home/user\<close> is the one directory
  \<open>chdir\<close> accepts, and the shell is always the parent of its \<open>fork\<close> calls; and a
  stage that has arguments only.\<close>

definition example_os :: os where
  "example_os =
     \<lparr>isatty_stdin = False, getenv_HOME = Some ''/home/user'',
      chdir_result = (\<lambda>cwd dir. if dir = ''/home/user'' then Inr dir
                                else Inl ''No such file or directory''),
      pipe_result = (\<lambda>i. Some (3 + 2 * int i, 4 + 2 * int i)),
      fork_result = (\<lambda>i. 100 + int i),
      open_result = (\<lambda>path mode. Some 9),
      dup2_error = (\<lambda>fd fd'. None),
      execvp_found = (\<lambda>file. True),
      reaped = 0\<rparr>"

definition example_shell :: shell where
  "example_shell =
     \<lparr>main_commands = replicate 16 empty_command, main_num_commands = 0, main_status = 1,
      main_cwd = ''/tmp''\<rparr>"

definition stage :: "string list \<Rightarrow> Command" where
  "stage as = \<lparr>args = as, input_file = None, output_file = None, background = False\<rparr>"

section \<open>Vocabulary of the specification\<close>

text \<open>The fields of a string cut at every delimiter character (empty fields
  included): what repeated \<open>strsep\<close> calls return one by one. The pipe-separated
  segments of a line are its fields at \<open>|\<close>.\<close>

fun split_at :: "string \<Rightarrow> string \<Rightarrow> string list" where
  "split_at ds [] = [[]]"
| "split_at ds (c # cs) =
     (if c \<in> set ds then [] # split_at ds cs
      else (c # hd (split_at ds cs)) # tl (split_at ds cs))"

fun ptr_fields :: "string \<Rightarrow> string option \<Rightarrow> string list" where
  "ptr_fields ds None = []"
| "ptr_fields ds (Some s) = split_at ds s"

definition pipe_segments :: "string \<Rightarrow> string list" where
  "pipe_segments line = split_at ''|'' line"

text \<open>The tokens of a segment: its fields at space and tab that are not empty.\<close>

definition tokens :: "string \<Rightarrow> string list" where
  "tokens s = filter (\<lambda>t. t \<noteq> []) (split_at [CHR '' '', CHR 0x09] s)"

fun ptr_tokens :: "string option \<Rightarrow> string list" where
  "ptr_tokens None = []"
| "ptr_tokens (Some s) = tokens s"

text \<open>
  The tokens of a segment read from left to right, as the specification classifies
  them: \<open><\<close> and \<open>>\<close> take the token that follows as their operand (\<open>None\<close> when
  there is none), \<open>&\<close> is the background mark, every other token is an argument. A
  token taken as an operand is not classified itself.
\<close>

datatype item = Arg string | Redirect_in "string option" | Redirect_out "string option"
  | Background_mark

fun items :: "string list \<Rightarrow> item list" where
  "items [] = []"
| "items [t] =
     [if t = ''<'' then Redirect_in None
      else if t = ''>'' then Redirect_out None
      else if t = ''&'' then Background_mark
      else Arg t]"
| "items (t # f # ts) =
     (if t = ''<'' then Redirect_in (Some f) # items ts
      else if t = ''>'' then Redirect_out (Some f) # items ts
      else if t = ''&'' then Background_mark # items (f # ts)
      else Arg t # items (f # ts))"

text \<open>The arguments, the operands of \<open><\<close> and the operands of \<open>>\<close> among the items.\<close>

definition item_args :: "item list \<Rightarrow> string list" where
  "item_args its = concat (map (\<lambda>it. case it of Arg t \<Rightarrow> [t] | _ \<Rightarrow> []) its)"

definition in_operands :: "item list \<Rightarrow> string option list" where
  "in_operands its = concat (map (\<lambda>it. case it of Redirect_in f \<Rightarrow> [f] | _ \<Rightarrow> []) its)"

definition out_operands :: "item list \<Rightarrow> string option list" where
  "out_operands its = concat (map (\<lambda>it. case it of Redirect_out f \<Rightarrow> [f] | _ \<Rightarrow> []) its)"

text \<open>A token list whose last token does not consist of spaces only, as the token
  list of a trimmed segment is.\<close>

definition trimmed_tokens :: "string list \<Rightarrow> bool" where
  "trimmed_tokens ts \<longleftrightarrow> ts = [] \<or> \<not> list_all isspace (last ts)"

text \<open>The items of a segment, and what the specification asks of them (step 3 and
  step 4 of its parsing algorithm): every redirection has its operand, each
  redirection occurs at most once, the background mark is the very last item and
  stands in the final segment only, and there is at least one argument. The capacity
  of the argument list is kept apart from this shape.\<close>

definition segment_items :: "string \<Rightarrow> item list" where
  "segment_items segment = items (tokens (trim_whitespace segment))"

definition stage_shape :: "bool \<Rightarrow> item list \<Rightarrow> bool" where
  "stage_shape is_last its \<longleftrightarrow>
     None \<notin> set (in_operands its) \<and> None \<notin> set (out_operands its) \<and>
     length (in_operands its) \<le> 1 \<and> length (out_operands its) \<le> 1 \<and>
     (Background_mark \<in> set its \<longrightarrow> is_last \<and> Background_mark \<notin> set (butlast its)) \<and>
     item_args its \<noteq> []"

definition wellformed_stage :: "bool \<Rightarrow> item list \<Rightarrow> bool" where
  "wellformed_stage is_last its \<longleftrightarrow>
     stage_shape is_last its \<and> length (item_args its) \<le> MAX_ARGS - 1"

text \<open>The stage the specification describes for a list of items.\<close>

definition described_stage :: "item list \<Rightarrow> Command" where
  "described_stage its =
     \<lparr>args = item_args its,
      input_file = (case in_operands its of [] \<Rightarrow> None | f # fs \<Rightarrow> f),
      output_file = (case out_operands its of [] \<Rightarrow> None | f # fs \<Rightarrow> f),
      background = (Background_mark \<in> set its)\<rparr>"

text \<open>A line has the right shape when each of its segments has, and (step 5) in a
  pipeline of several stages only the first declares an input source and only the
  last an output sink. It is within the limits when it has at most \<open>MAX_PIPE\<close>
  segments of at most \<open>MAX_ARGS - 1\<close> arguments each.\<close>

definition line_shape :: "string \<Rightarrow> bool" where
  "line_shape line \<longleftrightarrow>
     (let segs = pipe_segments line; n = length segs
      in list_all
           (\<lambda>i. stage_shape (i = n - 1) (segment_items (segs ! i)) \<and>
                (1 < n \<and> i \<noteq> 0 \<longrightarrow> in_operands (segment_items (segs ! i)) = []) \<and>
                (1 < n \<and> i \<noteq> n - 1 \<longrightarrow> out_operands (segment_items (segs ! i)) = []))
           [0..<n])"

definition within_limits :: "string \<Rightarrow> bool" where
  "within_limits line \<longleftrightarrow>
     length (pipe_segments line) \<le> MAX_PIPE \<and>
     list_all (\<lambda>segment. length (item_args (segment_items segment)) \<le> MAX_ARGS - 1)
       (pipe_segments line)"

definition wellformed_line :: "string \<Rightarrow> bool" where
  "wellformed_line line \<longleftrightarrow> line_shape line \<and> within_limits line"

text \<open>The two diagnostics of the validation loop.\<close>

definition validation_error :: "parse_error \<Rightarrow> bool" where
  "validation_error e \<longleftrightarrow>
     (case e of Input_not_allowed k \<Rightarrow> True | Output_not_allowed k \<Rightarrow> True | _ \<Rightarrow> False)"

text \<open>The tokenizer loop read on the list of tokens still ahead of the cursor instead
  of on the cursor itself; \<open>token_loop_classify\<close> below shows that it computes what
  \<open>token_loop\<close> computes. After \<open>&\<close> the characters left in the segment are all
  spaces exactly when all tokens left consist of spaces.\<close>

fun classify ::
  "bool \<Rightarrow> string list \<Rightarrow> Command \<Rightarrow> nat \<Rightarrow> nat \<Rightarrow> parse_error option \<times> Command" where
  "classify is_last [] cmd input_count output_count = (None, cmd)"
| "classify is_last (token # ts) cmd input_count output_count =
     (if token = ''<'' then
        (case ts of
           [] \<Rightarrow> (Some Unexpected_input_token, cmd)
         | file # ts' \<Rightarrow>
             if 0 < input_count then (Some Input_twice, cmd)
             else classify is_last ts' (cmd\<lparr>input_file := Some file\<rparr>)
                    (Suc input_count) output_count)
      else if token = ''>'' then
        (case ts of
           [] \<Rightarrow> (Some Unexpected_output_token, cmd)
         | file # ts' \<Rightarrow>
             if 0 < output_count then (Some Output_twice, cmd)
             else classify is_last ts' (cmd\<lparr>output_file := Some file\<rparr>)
                    input_count (Suc output_count))
      else if token = ''&'' then
        (if \<not> is_last then (Some Amp_not_at_end, cmd)
         else if list_all (list_all isspace) ts then (None, cmd\<lparr>background := True\<rparr>)
         else (Some Unexpected_amp, cmd))
      else if length (args cmd) < MAX_ARGS - 1
        then classify is_last ts (cmd\<lparr>args := args cmd @ [token]\<rparr>) input_count output_count
        else (Some Too_many_arguments, cmd))"

section \<open>Splitting at the pipe operator\<close>

lemma split_at_not_Nil [simp]: "split_at ds s \<noteq> []"
  by (induction s) auto

lemma length_split_at:
  "length (split_at ds s) = Suc (length (filter (\<lambda>c. c \<in> set ds) s))"
  by (induction s) auto

lemma split_at_unfold [code]:
  "split_at ds s =
     (case dropWhile (\<lambda>c. c \<notin> set ds) s of
        [] \<Rightarrow> [s]
      | d # r \<Rightarrow> takeWhile (\<lambda>c. c \<notin> set ds) s # split_at ds r)"
proof (induction s)
  case Nil
  show ?case by simp
next
  case (Cons c cs)
  show ?case
  proof (cases "c \<in> set ds")
    case True
    then show ?thesis by simp
  next
    case False
    with Cons show ?thesis
      by (cases "dropWhile (\<lambda>c. c \<notin> set ds) cs")
        (simp_all del: dropWhile_eq_Nil_conv)
  qed
qed

lemma strsep_fields:
  "strsep ds p = (tok, p') \<Longrightarrow>
     ptr_fields ds p = (case tok of None \<Rightarrow> [] | Some t \<Rightarrow> t # ptr_fields ds p')"
proof (cases p)
  case None
  assume "strsep ds p = (tok, p')"
  with None show ?thesis by auto
next
  case (Some s)
  assume "strsep ds p = (tok, p')"
  with Some show ?thesis
    by (cases "dropWhile (\<lambda>c. c \<notin> set ds) s")
      (auto simp: split_at_unfold [of ds s] simp del: dropWhile_eq_Nil_conv)
qed

lemma split_pipes_sound:
  "split_pipes p acc = Inr segs \<Longrightarrow>
     segs = acc @ ptr_fields ''|'' p \<and> [] \<notin> set (ptr_fields ''|'' p) \<and>
     (p \<noteq> None \<longrightarrow> length segs \<le> MAX_PIPE)"
proof (induction p acc rule: split_pipes.induct)
  case (1 line_ptr segments)
  obtain tok q where sq: "strsep ''|'' line_ptr = (tok, q)"
    by (cases "strsep ''|'' line_ptr")
  note fl = strsep_fields [OF sq]
  show ?case
  proof (cases tok)
    case None
    with sq "1.prems" have "segs = segments"
      by (simp add: split_pipes.simps [of line_ptr])
    moreover from sq None have "line_ptr = None"
      by (cases line_ptr) (auto split: list.splits)
    ultimately show ?thesis by simp
  next
    case (Some segment)
    with sq "1.prems" have ne: "segment \<noteq> []" and small: "\<not> MAX_PIPE \<le> length segments"
      and rec: "split_pipes q (segments @ [segment]) = Inr segs"
      by (auto simp: split_pipes.simps [of line_ptr] split: if_splits)
    from "1.IH" [OF sq [symmetric] Some ne small rec]
    have ih: "segs = (segments @ [segment]) @ ptr_fields ''|'' q"
      "[] \<notin> set (ptr_fields ''|'' q)" "q \<noteq> None \<longrightarrow> length segs \<le> MAX_PIPE"
      by auto
    have "length segs \<le> MAX_PIPE"
    proof (cases q)
      case None
      with ih(1) small show ?thesis by simp
    next
      case (Some a)
      with ih(3) show ?thesis by simp
    qed
    with ih fl Some ne show ?thesis by auto
  qed
qed

lemma split_pipes_complete:
  "[] \<notin> set (ptr_fields ''|'' p) \<Longrightarrow> length (acc @ ptr_fields ''|'' p) \<le> MAX_PIPE \<Longrightarrow>
     split_pipes p acc = Inr (acc @ ptr_fields ''|'' p)"
proof (induction p acc rule: split_pipes.induct)
  case (1 line_ptr segments)
  obtain tok q where sq: "strsep ''|'' line_ptr = (tok, q)"
    by (cases "strsep ''|'' line_ptr")
  note fl = strsep_fields [OF sq]
  show ?case
  proof (cases tok)
    case None
    with sq fl show ?thesis
      by (simp add: split_pipes.simps [of line_ptr])
  next
    case (Some segment)
    with fl have f: "ptr_fields ''|'' line_ptr = segment # ptr_fields ''|'' q" by simp
    with "1.prems" have ne: "segment \<noteq> []" and small: "\<not> MAX_PIPE \<le> length segments"
      and p1: "[] \<notin> set (ptr_fields ''|'' q)"
      and p2: "length ((segments @ [segment]) @ ptr_fields ''|'' q) \<le> MAX_PIPE"
      by auto
    from "1.IH" [OF sq [symmetric] Some ne small p1 p2] sq Some ne small f
    show ?thesis
      by (simp add: split_pipes.simps [of line_ptr])
  qed
qed

section \<open>The tokenizer loop on token lists\<close>

lemma ptr_tokens_fields:
  "ptr_tokens p = filter (\<lambda>t. t \<noteq> []) (ptr_fields [CHR '' '', CHR 0x09] p)"
  by (cases p) (simp_all add: tokens_def)

lemma strsep_tokens:
  assumes "strsep [CHR '' '', CHR 0x09] p = (tok, p')"
  shows "ptr_tokens p =
    (case tok of None \<Rightarrow> [] | Some t \<Rightarrow> if t = [] then ptr_tokens p' else t # ptr_tokens p')"
  using strsep_fields [OF assms] by (simp add: ptr_tokens_fields split: option.splits)

lemma next_token_tokens:
  "next_token p = (tok, p') \<Longrightarrow>
     ptr_tokens p = (case tok of None \<Rightarrow> [] | Some t \<Rightarrow> t # ptr_tokens p') \<and> tok \<noteq> Some []"
proof (induction p rule: next_token.induct)
  case (1 token_ptr)
  obtain t q where sq: "strsep [CHR '' '', CHR 0x09] token_ptr = (t, q)"
    by (cases "strsep [CHR '' '', CHR 0x09] token_ptr")
  note st = strsep_tokens [OF sq]
  show ?case
  proof (cases t)
    case None
    with sq "1.prems" st show ?thesis
      by (simp add: next_token.simps [of token_ptr])
  next
    case (Some token)
    show ?thesis
    proof (cases "token = []")
      case True
      with sq Some "1.prems" have "next_token q = (tok, p')"
        by (simp add: next_token.simps [of token_ptr])
      from "1.IH" [OF sq [symmetric] Some True this] st Some True show ?thesis by simp
    next
      case False
      with sq Some "1.prems" st show ?thesis
        by (auto simp: next_token.simps [of token_ptr])
    qed
  qed
qed

lemma split_at_chars:
  "set s = (\<Union>f \<in> set (split_at ds s). set f) \<union> (set s \<inter> set ds)"
proof (induction s)
  case Nil
  show ?case by simp
next
  case (Cons c cs)
  have "split_at ds cs = hd (split_at ds cs) # tl (split_at ds cs)" by simp
  then have "(\<Union>f \<in> set (split_at ds cs). set f) =
     set (hd (split_at ds cs)) \<union> (\<Union>f \<in> set (tl (split_at ds cs)). set f)"
    by (metis UN_insert list.simps(15))
  with Cons show ?case by auto
qed

lemma isspace_delims [simp]: "isspace (CHR '' '')" "isspace (CHR 0x09)"
  by (simp_all add: isspace_def)

lemma all_space_tokens:
  "list_all isspace r \<longleftrightarrow> list_all (list_all isspace) (tokens r)"
proof -
  let ?ds = "[CHR '' '', CHR 0x09]"
  have sub1: "(\<exists>f \<in> set (split_at ?ds r). c \<in> set f) \<or> c \<in> set ?ds" if "c \<in> set r" for c
    using split_at_chars [of r ?ds] that by blast
  have sub2: "c \<in> set r" if "f \<in> set (split_at ?ds r)" "c \<in> set f" for f c
    using split_at_chars [of r ?ds] that by blast
  show ?thesis
  proof
    assume "list_all isspace r"
    with sub2 show "list_all (list_all isspace) (tokens r)"
      by (auto simp: list_all_iff tokens_def)
  next
    assume a: "list_all (list_all isspace) (tokens r)"
    have "isspace c" if "c \<in> set r" for c
    proof -
      from sub1 [OF that] show ?thesis
      proof
        assume "\<exists>f \<in> set (split_at ?ds r). c \<in> set f"
        then obtain f where "f \<in> set (split_at ?ds r)" "c \<in> set f" by blast
        then have "f \<in> set (tokens r)" by (auto simp: tokens_def)
        with a \<open>c \<in> set f\<close> show ?thesis by (auto simp: list_all_iff)
      next
        assume "c \<in> set ?ds"
        then show ?thesis by auto
      qed
    qed
    then show "list_all isspace r" by (simp add: list_all_iff)
  qed
qed

lemma rest_blank_tokens:
  "(case p of None \<Rightarrow> True | Some remain \<Rightarrow> list_all isspace remain) \<longleftrightarrow>
     list_all (list_all isspace) (ptr_tokens p)"
  by (cases p) (simp_all add: all_space_tokens)

lemma token_loop_classify:
  "token_loop is_last p cmd ic oc = classify is_last (ptr_tokens p) cmd ic oc"
proof (induction is_last p cmd ic oc rule: token_loop.induct)
  case (1 is_last token_ptr cmd input_count output_count)
  obtain t q where sq: "strsep [CHR '' '', CHR 0x09] token_ptr = (t, q)"
    by (cases "strsep [CHR '' '', CHR 0x09] token_ptr")
  note st = strsep_tokens [OF sq]
  note unfold = token_loop.simps [of is_last token_ptr]
  show ?case
  proof (cases t)
    case None
    with sq st show ?thesis by (simp add: unfold)
  next
    case (Some token)
    note ih = "1.IH" [OF sq [symmetric] Some]
    show ?thesis
    proof (cases "token = []")
      case True
      with ih(1) sq Some st show ?thesis by (simp add: unfold)
    next
      case ne: False
      with st Some have toks: "ptr_tokens token_ptr = token # ptr_tokens q" by simp
      consider (inp) "token = ''<''" | (out) "token \<noteq> ''<''" "token = ''>''"
        | (amp) "token \<noteq> ''<''" "token \<noteq> ''>''" "token = ''&''"
        | (arg) "token \<noteq> ''<''" "token \<noteq> ''>''" "token \<noteq> ''&''"
        by blast
      then show ?thesis
      proof cases
        case inp
        obtain f q' where nt: "next_token q = (f, q')"
          by (cases "next_token q")
        note ntt = next_token_tokens [OF nt]
        show ?thesis
        proof (cases f)
          case None
          with sq Some ne inp nt ntt toks show ?thesis by (simp add: unfold)
        next
          case (Some path)
          show ?thesis
          proof (cases "0 < input_count")
            case True
            with sq \<open>t = Some token\<close> ne inp nt ntt toks Some show ?thesis
              by (simp add: unfold)
          next
            case False
            from ih(2) [OF ne inp nt [symmetric] Some False]
            have "token_loop is_last q' (cmd\<lparr>input_file := Some path\<rparr>) (Suc input_count) output_count =
              classify is_last (ptr_tokens q') (cmd\<lparr>input_file := Some path\<rparr>) (Suc input_count) output_count" .
            with sq \<open>t = Some token\<close> ne inp nt ntt toks Some False show ?thesis
              by (simp add: unfold)
          qed
        qed
      next
        case out
        obtain f q' where nt: "next_token q = (f, q')"
          by (cases "next_token q")
        note ntt = next_token_tokens [OF nt]
        show ?thesis
        proof (cases f)
          case None
          with sq Some ne out nt ntt toks show ?thesis by (simp add: unfold)
        next
          case (Some path)
          show ?thesis
          proof (cases "0 < output_count")
            case True
            with sq \<open>t = Some token\<close> ne out nt ntt toks Some show ?thesis
              by (simp add: unfold)
          next
            case False
            from ih(3) [OF ne out nt [symmetric] Some False]
            have "token_loop is_last q' (cmd\<lparr>output_file := Some path\<rparr>) input_count (Suc output_count) =
              classify is_last (ptr_tokens q') (cmd\<lparr>output_file := Some path\<rparr>) input_count (Suc output_count)" .
            with sq \<open>t = Some token\<close> ne out nt ntt toks Some False show ?thesis
              by (simp add: unfold)
          qed
        qed
      next
        case amp
        with sq Some ne toks rest_blank_tokens [of q] show ?thesis
          by (simp add: unfold)
      next
        case arg
        show ?thesis
        proof (cases "length (args cmd) < MAX_ARGS - 1")
          case True
          from ih(4) [OF ne arg True] sq Some ne arg toks True show ?thesis
            by (simp add: unfold)
        next
          case False
          with sq Some ne arg toks show ?thesis by (simp add: unfold)
        qed
      qed
    qed
  qed
qed

section \<open>What a successful run of the tokenizer loop computes\<close>

lemma trimmed_tokens_Cons: "trimmed_tokens (t # ts) \<Longrightarrow> trimmed_tokens ts"
  by (auto simp: trimmed_tokens_def)

lemma trimmed_tokens_blank:
  "trimmed_tokens (t # ts) \<Longrightarrow> list_all (list_all isspace) ts \<longleftrightarrow> ts = []"
  by (cases ts rule: rev_cases) (auto simp: trimmed_tokens_def)

lemma classify_ok_cases [consumes 2, case_names Nil Input Output Amp Arg]:
  assumes "trimmed_tokens ts" and "fst (classify l ts cmd ic oc) = None"
  obtains "ts = []" "classify l ts cmd ic oc = (None, cmd)"
  | f ts' where "ts = ''<'' # f # ts'" "ic = 0" "trimmed_tokens ts'"
      "classify l ts cmd ic oc = classify l ts' (cmd\<lparr>input_file := Some f\<rparr>) (Suc ic) oc"
  | f ts' where "ts = ''>'' # f # ts'" "oc = 0" "trimmed_tokens ts'"
      "classify l ts cmd ic oc = classify l ts' (cmd\<lparr>output_file := Some f\<rparr>) ic (Suc oc)"
  | "ts = [''&'']" "l" "classify l ts cmd ic oc = (None, cmd\<lparr>background := True\<rparr>)"
  | t ts' where "ts = t # ts'" "t \<noteq> ''<''" "t \<noteq> ''>''" "t \<noteq> ''&''" "trimmed_tokens ts'"
      "length (args cmd) < MAX_ARGS - 1"
      "classify l ts cmd ic oc = classify l ts' (cmd\<lparr>args := args cmd @ [t]\<rparr>) ic oc"
proof (cases ts)
  case Nil
  then show ?thesis using that(1) by simp
next
  case (Cons t ts')
  note tr = trimmed_tokens_Cons [OF assms(1) [unfolded Cons]]
  consider (inp) "t = ''<''" | (out) "t \<noteq> ''<''" "t = ''>''"
    | (amp) "t \<noteq> ''<''" "t \<noteq> ''>''" "t = ''&''"
    | (arg) "t \<noteq> ''<''" "t \<noteq> ''>''" "t \<noteq> ''&''"
    by blast
  then show ?thesis
  proof cases
    case inp
    with assms(2) Cons obtain f r where r: "ts' = f # r" by (cases ts') auto
    with assms(2) Cons inp have "ic = 0" by (auto split: if_splits)
    moreover from tr r have "trimmed_tokens r" by (auto dest: trimmed_tokens_Cons)
    ultimately show ?thesis using that(2) [of f r] Cons inp r by simp
  next
    case out
    with assms(2) Cons obtain f r where r: "ts' = f # r" by (cases ts') auto
    with assms(2) Cons out have "oc = 0" by (auto split: if_splits)
    moreover from tr r have "trimmed_tokens r" by (auto dest: trimmed_tokens_Cons)
    ultimately show ?thesis using that(3) [of f r] Cons out r by simp
  next
    case amp
    with assms(2) Cons have l: "l" and b: "list_all (list_all isspace) ts'"
      by (auto split: if_splits)
    with trimmed_tokens_blank [OF assms(1) [unfolded Cons]] have "ts' = []" by simp
    with l amp Cons show ?thesis using that(4) by simp
  next
    case arg
    with assms(2) Cons have "length (args cmd) < MAX_ARGS - 1" by (auto split: if_splits)
    with arg Cons tr show ?thesis using that(5) [of t ts'] by simp
  qed
qed

lemma items_Arg:
  "t \<noteq> ''<'' \<Longrightarrow> t \<noteq> ''>'' \<Longrightarrow> t \<noteq> ''&'' \<Longrightarrow> items (t # ts) = Arg t # items ts"
  by (cases ts) simp_all

lemma items_eq_Nil [simp]: "items ts = [] \<longleftrightarrow> ts = []"
  by (induction ts rule: items.induct) auto

lemma items_Amp: "items (''&'' # ts) = Background_mark # items ts"
  by (cases ts) simp_all

lemma item_args_simps [simp]:
  "item_args [] = []"
  "item_args (Arg t # its) = t # item_args its"
  "item_args (Redirect_in f # its) = item_args its"
  "item_args (Redirect_out f # its) = item_args its"
  "item_args (Background_mark # its) = item_args its"
  by (simp_all add: item_args_def)

lemma in_operands_simps [simp]:
  "in_operands [] = []"
  "in_operands (Arg t # its) = in_operands its"
  "in_operands (Redirect_in f # its) = f # in_operands its"
  "in_operands (Redirect_out f # its) = in_operands its"
  "in_operands (Background_mark # its) = in_operands its"
  by (simp_all add: in_operands_def)

lemma out_operands_simps [simp]:
  "out_operands [] = []"
  "out_operands (Arg t # its) = out_operands its"
  "out_operands (Redirect_in f # its) = out_operands its"
  "out_operands (Redirect_out f # its) = f # out_operands its"
  "out_operands (Background_mark # its) = out_operands its"
  by (simp_all add: out_operands_def)

lemma classify_args:
  "trimmed_tokens ts \<Longrightarrow> fst (classify l ts cmd ic oc) = None \<Longrightarrow>
     args (snd (classify l ts cmd ic oc)) = args cmd @ item_args (items ts) \<and>
     (item_args (items ts) \<noteq> [] \<longrightarrow>
        length (args (snd (classify l ts cmd ic oc))) \<le> MAX_ARGS - 1)"
proof (induction ts arbitrary: cmd ic oc rule: length_induct)
  case (1 ts)
  from "1.prems" show ?case
  proof (cases rule: classify_ok_cases)
    case Nil
    then show ?thesis by simp
  next
    case (Input f ts')
    with "1.prems" have "fst (classify l ts' (cmd\<lparr>input_file := Some f\<rparr>) (Suc ic) oc) = None"
      by simp
    with "1.IH" [rule_format, of ts' "cmd\<lparr>input_file := Some f\<rparr>" "Suc ic" oc] Input
    show ?thesis by auto
  next
    case (Output f ts')
    with "1.prems" have "fst (classify l ts' (cmd\<lparr>output_file := Some f\<rparr>) ic (Suc oc)) = None"
      by simp
    with "1.IH" [rule_format, of ts' "cmd\<lparr>output_file := Some f\<rparr>" ic "Suc oc"] Output
    show ?thesis by auto
  next
    case Amp
    then show ?thesis by simp
  next
    case (Arg t ts')
    with "1.prems" have "fst (classify l ts' (cmd\<lparr>args := args cmd @ [t]\<rparr>) ic oc) = None"
      by simp
    with "1.IH" [rule_format, of ts' "cmd\<lparr>args := args cmd @ [t]\<rparr>" ic oc] Arg
    show ?thesis by (cases "item_args (items ts') = []") (auto simp: items_Arg)
  qed
qed

lemma classify_input:
  "trimmed_tokens ts \<Longrightarrow> fst (classify l ts cmd ic oc) = None \<Longrightarrow>
     input_file (snd (classify l ts cmd ic oc)) =
       (case in_operands (items ts) of [] \<Rightarrow> input_file cmd | f # fs \<Rightarrow> f) \<and>
     None \<notin> set (in_operands (items ts)) \<and>
     length (in_operands (items ts)) \<le> (if ic = 0 then 1 else 0)"
proof (induction ts arbitrary: cmd ic oc rule: length_induct)
  case (1 ts)
  from "1.prems" show ?case
  proof (cases rule: classify_ok_cases)
    case Nil
    then show ?thesis by simp
  next
    case (Input f ts')
    with "1.prems" have "fst (classify l ts' (cmd\<lparr>input_file := Some f\<rparr>) (Suc ic) oc) = None"
      by simp
    with "1.IH" [rule_format, of ts' "cmd\<lparr>input_file := Some f\<rparr>" "Suc ic" oc] Input
    show ?thesis by (auto split: list.splits)
  next
    case (Output f ts')
    with "1.prems" have "fst (classify l ts' (cmd\<lparr>output_file := Some f\<rparr>) ic (Suc oc)) = None"
      by simp
    with "1.IH" [rule_format, of ts' "cmd\<lparr>output_file := Some f\<rparr>" ic "Suc oc"] Output
    show ?thesis by (auto split: list.splits)
  next
    case Amp
    then show ?thesis by simp
  next
    case (Arg t ts')
    with "1.prems" have "fst (classify l ts' (cmd\<lparr>args := args cmd @ [t]\<rparr>) ic oc) = None"
      by simp
    with "1.IH" [rule_format, of ts' "cmd\<lparr>args := args cmd @ [t]\<rparr>" ic oc] Arg
    show ?thesis by (auto simp: items_Arg split: list.splits)
  qed
qed

lemma classify_output:
  "trimmed_tokens ts \<Longrightarrow> fst (classify l ts cmd ic oc) = None \<Longrightarrow>
     output_file (snd (classify l ts cmd ic oc)) =
       (case out_operands (items ts) of [] \<Rightarrow> output_file cmd | f # fs \<Rightarrow> f) \<and>
     None \<notin> set (out_operands (items ts)) \<and>
     length (out_operands (items ts)) \<le> (if oc = 0 then 1 else 0)"
proof (induction ts arbitrary: cmd ic oc rule: length_induct)
  case (1 ts)
  from "1.prems" show ?case
  proof (cases rule: classify_ok_cases)
    case Nil
    then show ?thesis by simp
  next
    case (Input f ts')
    with "1.prems" have "fst (classify l ts' (cmd\<lparr>input_file := Some f\<rparr>) (Suc ic) oc) = None"
      by simp
    with "1.IH" [rule_format, of ts' "cmd\<lparr>input_file := Some f\<rparr>" "Suc ic" oc] Input
    show ?thesis by (auto split: list.splits)
  next
    case (Output f ts')
    with "1.prems" have "fst (classify l ts' (cmd\<lparr>output_file := Some f\<rparr>) ic (Suc oc)) = None"
      by simp
    with "1.IH" [rule_format, of ts' "cmd\<lparr>output_file := Some f\<rparr>" ic "Suc oc"] Output
    show ?thesis by (auto split: list.splits)
  next
    case Amp
    then show ?thesis by simp
  next
    case (Arg t ts')
    with "1.prems" have "fst (classify l ts' (cmd\<lparr>args := args cmd @ [t]\<rparr>) ic oc) = None"
      by simp
    with "1.IH" [rule_format, of ts' "cmd\<lparr>args := args cmd @ [t]\<rparr>" ic oc] Arg
    show ?thesis by (auto simp: items_Arg split: list.splits)
  qed
qed

lemma classify_background:
  "trimmed_tokens ts \<Longrightarrow> fst (classify l ts cmd ic oc) = None \<Longrightarrow>
     background (snd (classify l ts cmd ic oc)) =
       (background cmd \<or> Background_mark \<in> set (items ts)) \<and>
     (Background_mark \<in> set (items ts) \<longrightarrow>
        l \<and> last ts = ''&'' \<and> last (items ts) = Background_mark \<and>
        Background_mark \<notin> set (butlast (items ts)))"
proof (induction ts arbitrary: cmd ic oc rule: length_induct)
  case (1 ts)
  from "1.prems" show ?case
  proof (cases rule: classify_ok_cases)
    case Nil
    then show ?thesis by simp
  next
    case (Input f ts')
    with "1.prems" have "fst (classify l ts' (cmd\<lparr>input_file := Some f\<rparr>) (Suc ic) oc) = None"
      by simp
    with "1.IH" [rule_format, of ts' "cmd\<lparr>input_file := Some f\<rparr>" "Suc ic" oc] Input
    show ?thesis by auto
  next
    case (Output f ts')
    with "1.prems" have "fst (classify l ts' (cmd\<lparr>output_file := Some f\<rparr>) ic (Suc oc)) = None"
      by simp
    with "1.IH" [rule_format, of ts' "cmd\<lparr>output_file := Some f\<rparr>" ic "Suc oc"] Output
    show ?thesis by auto
  next
    case Amp
    then show ?thesis by simp
  next
    case (Arg t ts')
    with "1.prems" have "fst (classify l ts' (cmd\<lparr>args := args cmd @ [t]\<rparr>) ic oc) = None"
      by simp
    with "1.IH" [rule_format, of ts' "cmd\<lparr>args := args cmd @ [t]\<rparr>" ic oc] Arg
    show ?thesis by (auto simp: items_Arg)
  qed
qed

lemma classify_complete:
  "None \<notin> set (in_operands (items ts)) \<Longrightarrow> None \<notin> set (out_operands (items ts)) \<Longrightarrow>
   length (in_operands (items ts)) \<le> (if ic = 0 then 1 else 0) \<Longrightarrow>
   length (out_operands (items ts)) \<le> (if oc = 0 then 1 else 0) \<Longrightarrow>
   (Background_mark \<in> set (items ts) \<longrightarrow> l \<and> Background_mark \<notin> set (butlast (items ts))) \<Longrightarrow>
   length (args cmd) + length (item_args (items ts)) \<le> MAX_ARGS - 1 \<Longrightarrow>
   fst (classify l ts cmd ic oc) = None"
proof (induction ts arbitrary: cmd ic oc rule: items.induct)
  case 1
  show ?case by simp
next
  case (2 t)
  consider (inp) "t = ''<''" | (out) "t \<noteq> ''<''" "t = ''>''"
    | (amp) "t \<noteq> ''<''" "t \<noteq> ''>''" "t = ''&''"
    | (arg) "t \<noteq> ''<''" "t \<noteq> ''>''" "t \<noteq> ''&''"
    by blast
  then show ?case
  proof cases
    case inp
    with "2.prems"(1) show ?thesis by simp
  next
    case out
    with "2.prems"(2) show ?thesis by simp
  next
    case amp
    with "2.prems"(5) show ?thesis by simp
  next
    case arg
    with "2.prems"(6) show ?thesis by simp
  qed
next
  case (3 t f ts)
  consider (inp) "t = ''<''" | (out) "t \<noteq> ''<''" "t = ''>''"
    | (amp) "t \<noteq> ''<''" "t \<noteq> ''>''" "t = ''&''"
    | (arg) "t \<noteq> ''<''" "t \<noteq> ''>''" "t \<noteq> ''&''"
    by blast
  then show ?case
  proof cases
    case inp
    then have its: "items (t # f # ts) = Redirect_in (Some f) # items ts" by simp
    from "3.prems"(3) have ic: "ic = 0" and no_in: "in_operands (items ts) = []"
      unfolding its by (simp_all split: if_splits)
    have "fst (classify l ts (cmd\<lparr>input_file := Some f\<rparr>) (Suc ic) oc) = None"
    proof (rule "3.IH"(1) [OF inp])
      show "None \<notin> set (in_operands (items ts))" using no_in by simp
      show "None \<notin> set (out_operands (items ts))" using "3.prems"(2) unfolding its by simp
      show "length (in_operands (items ts)) \<le> (if Suc ic = 0 then 1 else 0)"
        using no_in by simp
      show "length (out_operands (items ts)) \<le> (if oc = 0 then 1 else 0)"
        using "3.prems"(4) unfolding its by simp
      show "Background_mark \<in> set (items ts) \<longrightarrow>
          l \<and> Background_mark \<notin> set (butlast (items ts))"
        using "3.prems"(5) unfolding its by (auto split: if_splits)
      show "length (args (cmd\<lparr>input_file := Some f\<rparr>)) + length (item_args (items ts))
          \<le> MAX_ARGS - 1"
        using "3.prems"(6) unfolding its by simp
    qed
    with inp ic show ?thesis by simp
  next
    case out
    then have its: "items (t # f # ts) = Redirect_out (Some f) # items ts" by simp
    from "3.prems"(4) have oc: "oc = 0" and no_out: "out_operands (items ts) = []"
      unfolding its by (simp_all split: if_splits)
    have "fst (classify l ts (cmd\<lparr>output_file := Some f\<rparr>) ic (Suc oc)) = None"
    proof (rule "3.IH"(2) [OF out])
      show "None \<notin> set (in_operands (items ts))" using "3.prems"(1) unfolding its by simp
      show "None \<notin> set (out_operands (items ts))" using no_out by simp
      show "length (in_operands (items ts)) \<le> (if ic = 0 then 1 else 0)"
        using "3.prems"(3) unfolding its by simp
      show "length (out_operands (items ts)) \<le> (if Suc oc = 0 then 1 else 0)"
        using no_out by simp
      show "Background_mark \<in> set (items ts) \<longrightarrow>
          l \<and> Background_mark \<notin> set (butlast (items ts))"
        using "3.prems"(5) unfolding its by (auto split: if_splits)
      show "length (args (cmd\<lparr>output_file := Some f\<rparr>)) + length (item_args (items ts))
          \<le> MAX_ARGS - 1"
        using "3.prems"(6) unfolding its by simp
    qed
    with out oc show ?thesis by simp
  next
    case amp
    then have its: "items (t # f # ts) = Background_mark # items (f # ts)" by simp
    have "items (f # ts) \<noteq> []" by simp
    with "3.prems"(5) show ?thesis unfolding its by simp
  next
    case arg
    then have its: "items (t # f # ts) = Arg t # items (f # ts)" by simp
    have ne: "items (f # ts) \<noteq> []" by simp
    have "fst (classify l (f # ts) (cmd\<lparr>args := args cmd @ [t]\<rparr>) ic oc) = None"
    proof (rule "3.IH"(4) [OF arg])
      show "None \<notin> set (in_operands (items (f # ts)))"
        using "3.prems"(1) unfolding its by simp
      show "None \<notin> set (out_operands (items (f # ts)))"
        using "3.prems"(2) unfolding its by simp
      show "length (in_operands (items (f # ts))) \<le> (if ic = 0 then 1 else 0)"
        using "3.prems"(3) unfolding its by simp
      show "length (out_operands (items (f # ts))) \<le> (if oc = 0 then 1 else 0)"
        using "3.prems"(4) unfolding its by simp
      show "Background_mark \<in> set (items (f # ts)) \<longrightarrow>
          l \<and> Background_mark \<notin> set (butlast (items (f # ts)))"
        using "3.prems"(5) ne unfolding its by simp
      show "length (args (cmd\<lparr>args := args cmd @ [t]\<rparr>)) + length (item_args (items (f # ts)))
          \<le> MAX_ARGS - 1"
        using "3.prems"(6) unfolding its by simp
    qed
    moreover from "3.prems"(6) have "length (args cmd) < MAX_ARGS - 1"
      unfolding its by simp
    ultimately show ?thesis using arg by simp
  qed
qed

section \<open>Trimmed segments and their tokens\<close>

lemma strip_trailing_props:
  "s \<noteq> [] \<Longrightarrow> \<not> isspace (hd s) \<Longrightarrow>
     strip_trailing s \<noteq> [] \<and> \<not> isspace (last (strip_trailing s)) \<and>
     (\<exists>post. s = strip_trailing s @ post \<and> list_all isspace post)"
proof (induction s rule: strip_trailing.induct)
  case (1 s)
  show ?case
  proof (cases "1 < length s \<and> isspace (last s)")
    case True
    then have st: "strip_trailing s = strip_trailing (butlast s)"
      by (subst strip_trailing.simps) simp
    from True have ne: "butlast s \<noteq> []" by (cases s rule: rev_cases) auto
    moreover from "1.prems" ne have "\<not> isspace (hd (butlast s))"
      by (cases s rule: rev_cases) (auto simp: hd_append)
    ultimately obtain post where ih: "strip_trailing (butlast s) \<noteq> []"
      "\<not> isspace (last (strip_trailing (butlast s)))"
      "butlast s = strip_trailing (butlast s) @ post" "list_all isspace post"
      using "1.IH" [OF True] by blast
    from "1.prems"(1) have "s = butlast s @ [last s]" by simp
    with ih(3) have "s = strip_trailing (butlast s) @ (post @ [last s])"
      by (metis append.assoc)
    moreover from ih(4) True have "list_all isspace (post @ [last s])" by simp
    ultimately have "\<exists>post. s = strip_trailing (butlast s) @ post \<and> list_all isspace post"
      by blast
    with ih(1,2) show ?thesis unfolding st by blast
  next
    case False
    then have st: "strip_trailing s = s" by (subst strip_trailing.simps) auto
    from False "1.prems" have "\<not> isspace (last s)"
      by (cases s) (auto split: if_splits)
    moreover have "s = s @ [] \<and> list_all isspace []" by simp
    ultimately show ?thesis using "1.prems"(1) unfolding st by blast
  qed
qed

lemma trim_whitespace_props:
  "trim_whitespace seg = [] \<or> \<not> isspace (last (trim_whitespace seg))"
  "\<exists>pre post. seg = pre @ trim_whitespace seg @ post \<and> list_all isspace post"
proof -
  let ?str = "dropWhile isspace seg"
  have d: "seg = takeWhile isspace seg @ ?str" by simp
  have tw: "trim_whitespace seg = (if ?str = [] then [] else strip_trailing ?str)"
    by (simp add: trim_whitespace_def Let_def del: dropWhile_eq_Nil_conv)
  show "trim_whitespace seg = [] \<or> \<not> isspace (last (trim_whitespace seg))"
  proof (cases "?str = []")
    case True
    with tw show ?thesis by (simp del: dropWhile_eq_Nil_conv)
  next
    case False
    then have "\<not> isspace (hd ?str)" by (rule hd_dropWhile)
    from strip_trailing_props [OF False this] tw False show ?thesis
      by (simp del: dropWhile_eq_Nil_conv)
  qed
  show "\<exists>pre post. seg = pre @ trim_whitespace seg @ post \<and> list_all isspace post"
  proof (cases "?str = []")
    case True
    with tw have "seg = seg @ trim_whitespace seg @ [] \<and> list_all isspace []"
      by (simp del: dropWhile_eq_Nil_conv)
    then show ?thesis by blast
  next
    case False
    then have "\<not> isspace (hd ?str)" by (rule hd_dropWhile)
    from strip_trailing_props [OF False this] obtain post
      where p: "?str = strip_trailing ?str @ post" "list_all isspace post" by blast
    from tw False have "trim_whitespace seg = strip_trailing ?str"
      by (simp del: dropWhile_eq_Nil_conv)
    with p(1) d have "seg = takeWhile isspace seg @ trim_whitespace seg @ post"
      by metis
    with p(2) show ?thesis by blast
  qed
qed

lemma split_at_single:
  "tl (split_at ds s) = [] \<longleftrightarrow> (\<forall>c \<in> set s. c \<notin> set ds)"
proof -
  have "tl (split_at ds s) = [] \<longleftrightarrow> length (split_at ds s) = 1"
    by (cases "split_at ds s") auto
  also have "\<dots> \<longleftrightarrow> filter (\<lambda>c. c \<in> set ds) s = []"
    by (simp add: length_split_at)
  also have "\<dots> \<longleftrightarrow> (\<forall>c \<in> set s. c \<notin> set ds)"
    by (simp add: filter_empty_conv)
  finally show ?thesis .
qed

lemma last_split_at:
  "last (split_at ds s) = rev (takeWhile (\<lambda>c. c \<notin> set ds) (rev s))"
proof (induction s)
  case Nil
  show ?case by simp
next
  case (Cons c cs)
  let ?P = "\<lambda>c. c \<notin> set ds"
  show ?case
  proof (cases "c \<in> set ds")
    case True
    with Cons show ?thesis by (simp add: takeWhile_append)
  next
    case False
    show ?thesis
    proof (cases "tl (split_at ds cs) = []")
      case True
      then have all: "\<forall>c \<in> set cs. c \<notin> set ds" by (simp add: split_at_single)
      then have tw: "takeWhile ?P (rev cs) = rev cs" by (simp add: takeWhile_eq_all_conv)
      from True have "split_at ds cs = [hd (split_at ds cs)]"
        by (cases "split_at ds cs") auto
      then have "hd (split_at ds cs) = last (split_at ds cs)" by (metis last.simps)
      with Cons tw have "hd (split_at ds cs) = cs" by simp
      with False True all tw show ?thesis by (simp add: takeWhile_append)
    next
      case ne: False
      then have ex: "\<not> (\<forall>c \<in> set cs. c \<notin> set ds)" by (simp add: split_at_single)
      from ne have "last (tl (split_at ds cs)) = last (split_at ds cs)"
        by (simp add: last_tl)
      with False ne Cons ex show ?thesis by (auto simp: takeWhile_append)
    qed
  qed
qed

lemma split_at_last:
  "\<exists>pre. s = pre @ last (split_at ds s)"
  "s \<noteq> [] \<Longrightarrow> last s \<notin> set ds \<Longrightarrow> last (split_at ds s) \<noteq> []"
proof -
  let ?P = "\<lambda>c. c \<notin> set ds"
  have "rev s = takeWhile ?P (rev s) @ dropWhile ?P (rev s)" by simp
  then have "s = rev (dropWhile ?P (rev s)) @ rev (takeWhile ?P (rev s))"
    by (metis rev_append rev_rev_ident)
  then show "\<exists>pre. s = pre @ last (split_at ds s)"
    by (metis last_split_at)
  show "last (split_at ds s) \<noteq> []" if "s \<noteq> []" "last s \<notin> set ds"
  proof -
    from that(1) have "rev s = rev (butlast s @ [last s])" by simp
    also have "\<dots> = last s # rev (butlast s)" by simp
    finally have r: "rev s = last s # rev (butlast s)" .
    have "takeWhile ?P (rev s) \<noteq> []"
      using that(2) by (subst r) simp
    then show ?thesis by (simp add: last_split_at)
  qed
qed

lemma tokens_trimmed:
  assumes "s = [] \<or> \<not> isspace (last s)"
  shows "trimmed_tokens (tokens s)"
    and "tokens s \<noteq> [] \<Longrightarrow> \<exists>pre. s = pre @ last (tokens s)"
    and "s \<noteq> [] \<Longrightarrow> tokens s \<noteq> []"
proof -
  let ?ds = "[CHR '' '', CHR 0x09]"
  let ?fs = "split_at ?ds s"
  have key: "last ?fs \<noteq> [] \<and> tokens s \<noteq> [] \<and> last (tokens s) = last ?fs \<and>
      last (last ?fs) = last s" if ne: "s \<noteq> []"
  proof -
    from ne assms have ns: "\<not> isspace (last s)" by simp
    then have "last s \<notin> set ?ds" by (auto simp: isspace_def)
    from split_at_last(2) [OF ne this] have l: "last ?fs \<noteq> []" .
    have "?fs = butlast ?fs @ [last ?fs]" by simp
    then have "filter (\<lambda>t. t \<noteq> []) ?fs =
        filter (\<lambda>t. t \<noteq> []) (butlast ?fs) @ filter (\<lambda>t. t \<noteq> []) [last ?fs]"
      by (metis filter_append)
    with l have t: "tokens s = filter (\<lambda>t. t \<noteq> []) (butlast ?fs) @ [last ?fs]"
      by (simp add: tokens_def)
    then have "tokens s \<noteq> []" "last (tokens s) = last ?fs" by simp_all
    moreover from split_at_last(1) [of s ?ds] l have "last (last ?fs) = last s"
      by (metis last_appendR)
    ultimately show ?thesis using l by simp
  qed
  show "trimmed_tokens (tokens s)"
  proof (cases "s = []")
    case True
    then show ?thesis by (simp add: trimmed_tokens_def tokens_def)
  next
    case False
    with assms have ns: "\<not> isspace (last s)" by simp
    from key [OF False] have "last (last (tokens s)) = last s" "last (tokens s) \<noteq> []"
      by simp_all
    with ns have "\<not> list_all isspace (last (tokens s))"
      by (metis last_in_set list_all_iff)
    then show ?thesis by (simp add: trimmed_tokens_def)
  qed
  show "\<exists>pre. s = pre @ last (tokens s)" if "tokens s \<noteq> []"
  proof -
    from that have "s \<noteq> []" by (auto simp: tokens_def)
    with key split_at_last(1) [of s ?ds] show ?thesis by simp
  qed
  show "tokens s \<noteq> []" if "s \<noteq> []"
    using key that by simp
qed

section \<open>The segment loop and the validation loop\<close>


lemma split_pipes_line:
  "split_pipes (Some line) [] = Inr segs \<Longrightarrow>
     segs = pipe_segments line \<and> [] \<notin> set segs \<and> length segs \<le> MAX_PIPE"
  using split_pipes_sound [of "Some line" "[]" segs] by (auto simp: pipe_segments_def)

definition stage_of :: "bool \<Rightarrow> string \<Rightarrow> parse_error option \<times> Command" where
  "stage_of is_last segment = token_loop is_last (Some (trim_whitespace segment)) empty_command 0 0"

lemma parse_segments_length:
  "length (snd (parse_segments n i segs cmds)) = length cmds"
  by (induction segs arbitrary: i cmds) (auto simp: Let_def split: prod.splits option.splits)

lemma parse_segments_below:
  "k < i \<Longrightarrow> snd (parse_segments n i segs cmds) ! k = cmds ! k"
  by (induction segs arbitrary: i cmds) (auto simp: Let_def split: prod.splits option.splits)

lemma parse_segments_sound:
  "parse_segments n i segs cmds = (None, cmds') \<Longrightarrow> i + length segs \<le> length cmds \<Longrightarrow>
     j < length segs \<Longrightarrow>
     trim_whitespace (segs ! j) \<noteq> [] \<and>
     stage_of (i + j = n - 1) (segs ! j) = (None, cmds' ! (i + j)) \<and>
     args (cmds' ! (i + j)) \<noteq> []"
proof (induction segs arbitrary: i j cmds)
  case Nil
  then show ?case by simp
next
  case (Cons segment rest)
  let ?seg = "trim_whitespace segment"
  from Cons.prems(1) have ne: "?seg \<noteq> []"
    by (auto simp: Let_def split: if_splits)
  obtain e cmd where tl: "token_loop (i = n - 1) (Some ?seg) empty_command 0 0 = (e, cmd)"
    by (cases "token_loop (i = n - 1) (Some ?seg) empty_command 0 0")
  with Cons.prems(1) ne have e: "e = None" and a: "args cmd \<noteq> []"
    and rec: "parse_segments n (Suc i) rest (cmds[i := cmd]) = (None, cmds')"
    by (auto simp: Let_def split: if_splits option.splits)
  have at_i: "cmds' ! i = cmd"
    using parse_segments_below [of i "Suc i" n rest "cmds[i := cmd]"] rec Cons.prems(2)
    by simp
  show ?case
  proof (cases j)
    case 0
    with ne tl e a at_i show ?thesis by (simp add: stage_of_def)
  next
    case (Suc j')
    with Cons.prems have "j' < length rest" and "Suc i + length rest \<le> length (cmds[i := cmd])"
      by auto
    from Cons.IH [OF rec this(2) this(1)] Suc show ?thesis by simp
  qed
qed

lemma parse_segments_fst_indep:
  "fst (parse_segments n i segs cmds) = fst (parse_segments n i segs cmds2)"
  by (induction segs arbitrary: i cmds cmds2) (auto simp: Let_def split: prod.splits option.splits)

lemma parse_segments_complete:
  "(\<And>j. j < length segs \<Longrightarrow> trim_whitespace (segs ! j) \<noteq> [] \<and>
       fst (stage_of (i + j = n - 1) (segs ! j)) = None \<and>
       args (snd (stage_of (i + j = n - 1) (segs ! j))) \<noteq> []) \<Longrightarrow>
   fst (parse_segments n i segs cmds) = None"
proof (induction segs arbitrary: i cmds)
  case Nil
  show ?case by simp
next
  case (Cons segment rest)
  from Cons.prems [of 0] have h0: "trim_whitespace segment \<noteq> []"
    "fst (stage_of (i = n - 1) segment) = None"
    "args (snd (stage_of (i = n - 1) segment)) \<noteq> []"
    by auto
  have "fst (parse_segments n (Suc i) rest cmds') = None" for cmds'
  proof (rule Cons.IH)
    fix j assume "j < length rest"
    with Cons.prems [of "Suc j"] show "trim_whitespace (rest ! j) \<noteq> [] \<and>
       fst (stage_of (Suc i + j = n - 1) (rest ! j)) = None \<and>
       args (snd (stage_of (Suc i + j = n - 1) (rest ! j))) \<noteq> []"
      by simp
  qed
  with h0 show ?case
    by (auto simp: Let_def stage_of_def split: prod.splits option.splits)
qed

lemma validate_sound:
  "validate_redirection n i cs = None \<Longrightarrow> j < length cs \<Longrightarrow>
     (i + j \<noteq> 0 \<longrightarrow> input_file (cs ! j) = None) \<and>
     (i + j \<noteq> n - 1 \<longrightarrow> output_file (cs ! j) = None)"
proof (induction cs arbitrary: i j)
  case Nil
  then show ?case by simp
next
  case (Cons c cs)
  show ?case
  proof (cases j)
    case 0
    with Cons.prems show ?thesis by (auto split: if_splits)
  next
    case (Suc j')
    with Cons.prems have "validate_redirection n (Suc i) cs = None" "j' < length cs"
      by (auto split: if_splits)
    from Cons.IH [OF this] Suc show ?thesis by simp
  qed
qed

lemma stage_of_classify:
  "stage_of l segment = classify l (tokens (trim_whitespace segment)) empty_command 0 0"
  by (simp add: stage_of_def token_loop_classify)

lemma segment_tokens_trimmed: "trimmed_tokens (tokens (trim_whitespace segment))"
  by (rule tokens_trimmed(1)) (rule trim_whitespace_props(1))

lemma stage_of_sound:
  assumes "fst (stage_of l segment) = None"
  shows "snd (stage_of l segment) = described_stage (segment_items segment)"
    and "args (snd (stage_of l segment)) \<noteq> [] \<Longrightarrow> wellformed_stage l (segment_items segment)"
proof -
  let ?ts = "tokens (trim_whitespace segment)"
  let ?r = "classify l ?ts empty_command 0 0"
  from assms have ok: "fst ?r = None" by (simp add: stage_of_classify)
  note tr = segment_tokens_trimmed [of segment]
  note a = classify_args [OF tr ok] and i = classify_input [OF tr ok]
    and out = classify_output [OF tr ok] and b = classify_background [OF tr ok]
  show "snd (stage_of l segment) = described_stage (segment_items segment)"
    using a i out b
    by (intro Command.equality)
      (simp_all add: stage_of_classify described_stage_def segment_items_def empty_command_def
        split: list.splits)
  show "wellformed_stage l (segment_items segment)" if "args (snd (stage_of l segment)) \<noteq> []"
  proof -
    from that a have ne: "item_args (items ?ts) \<noteq> []"
      by (simp add: stage_of_classify empty_command_def)
    with a have "length (item_args (items ?ts)) \<le> MAX_ARGS - 1"
      by (auto simp: empty_command_def)
    with ne i out b show ?thesis
      by (simp add: wellformed_stage_def stage_shape_def segment_items_def)
  qed
qed

lemma stage_of_complete:
  assumes "wellformed_stage l (segment_items segment)"
  shows "fst (stage_of l segment) = None" and "args (snd (stage_of l segment)) \<noteq> []"
    and "trim_whitespace segment \<noteq> []"
proof -
  let ?ts = "tokens (trim_whitespace segment)"
  from assms have w: "None \<notin> set (in_operands (items ?ts))"
    "None \<notin> set (out_operands (items ?ts))"
    "length (in_operands (items ?ts)) \<le> 1" "length (out_operands (items ?ts)) \<le> 1"
    "Background_mark \<in> set (items ?ts) \<longrightarrow> l \<and> Background_mark \<notin> set (butlast (items ?ts))"
    "item_args (items ?ts) \<noteq> []" "length (item_args (items ?ts)) \<le> MAX_ARGS - 1"
    by (simp_all add: wellformed_stage_def stage_shape_def segment_items_def)
  have "fst (classify l ?ts empty_command 0 0) = None"
    using w by (intro classify_complete) (simp_all add: empty_command_def)
  then show ok: "fst (stage_of l segment) = None" by (simp add: stage_of_classify)
  from stage_of_sound(1) [OF ok] w(6) show "args (snd (stage_of l segment)) \<noteq> []"
    by (simp add: described_stage_def segment_items_def)
  from w(6) have "?ts \<noteq> []" by auto
  then show "trim_whitespace segment \<noteq> []" by (auto simp: tokens_def)
qed

lemma validate_complete:
  "(\<And>j. j < length cs \<Longrightarrow> (i + j \<noteq> 0 \<longrightarrow> input_file (cs ! j) = None) \<and>
        (i + j \<noteq> n - 1 \<longrightarrow> output_file (cs ! j) = None)) \<Longrightarrow>
   validate_redirection n i cs = None"
proof (induction cs arbitrary: i)
  case Nil
  show ?case by simp
next
  case (Cons c cs)
  from Cons.prems [of 0] have h: "i \<noteq> 0 \<longrightarrow> input_file c = None"
    "i \<noteq> n - 1 \<longrightarrow> output_file c = None" by auto
  have "validate_redirection n (Suc i) cs = None"
  proof (rule Cons.IH)
    fix j assume "j < length cs"
    with Cons.prems [of "Suc j"] show "(Suc i + j \<noteq> 0 \<longrightarrow> input_file (cs ! j) = None) \<and>
        (Suc i + j \<noteq> n - 1 \<longrightarrow> output_file (cs ! j) = None)" by simp
  qed
  with h show ?case by auto
qed

lemma parse_command_cases [consumes 1, case_names failed ok]:
  assumes len: "length (pipe_segments line) \<le> MAX_PIPE \<longrightarrow> length (pipe_segments line) \<le> length commands"
  obtains e cmds' where
      "parse_command (Some line) commands n0 = parse_failed e cmds' n0"
  | cmds' where
      "parse_command (Some line) commands n0 =
         \<lparr>ret = 0, diag = None, commands_out = cmds',
          num_out = int (length (pipe_segments line))\<rparr>"
      "split_pipes (Some line) [] = Inr (pipe_segments line)"
      "parse_segments (length (pipe_segments line)) 0 (pipe_segments line) commands = (None, cmds')"
      "1 < length (pipe_segments line) \<longrightarrow>
         validate_redirection (length (pipe_segments line)) 0
           (take (length (pipe_segments line)) cmds') = None"
proof (cases "split_pipes (Some line) []")
  case (Inl e)
  then have "parse_command (Some line) commands n0 = parse_failed e commands n0"
    by (simp add: parse_command_def)
  then show ?thesis by (rule that(1))
next
  case (Inr segments)
  with split_pipes_line have segs: "segments = pipe_segments line" by blast
  obtain e cmds' where ps: "parse_segments (length segments) 0 segments commands = (e, cmds')"
    by (cases "parse_segments (length segments) 0 segments commands")
  show ?thesis
  proof (cases e)
    case (Some err)
    with Inr ps have "parse_command (Some line) commands n0 = parse_failed err cmds' n0"
      by (simp add: parse_command_def)
    then show ?thesis by (rule that(1))
  next
    case None
    show ?thesis
    proof (cases "if 1 < length segments
        then validate_redirection (length segments) 0 (take (length segments) cmds') else None")
      case (Some err)
      with Inr ps None have "parse_command (Some line) commands n0 = parse_failed err cmds' n0"
        by (simp add: parse_command_def)
      then show ?thesis by (rule that(1))
    next
      case v: None
      with Inr ps None have "parse_command (Some line) commands n0 =
         \<lparr>ret = 0, diag = None, commands_out = cmds', num_out = int (length segments)\<rparr>"
        by (simp add: parse_command_def)
      moreover from v have "1 < length segments \<longrightarrow>
         validate_redirection (length segments) 0 (take (length segments) cmds') = None"
        by (simp split: if_splits)
      ultimately show ?thesis
        using Inr ps None segs by (intro that(2)) simp_all
    qed
  qed
qed

lemma pipe_segments_count:
  "length (pipe_segments line) = Suc (count_list line (CHR ''|''))"
  by (simp add: pipe_segments_def length_split_at count_list_eq_length_filter)
    (metis (mono_tags, lifting) filter_cong)

section \<open>The parser against the specification\<close>

lemma trim_whitespace_Nil [simp]: "trim_whitespace [] = []"
  by (simp add: trim_whitespace_def)

lemma wellformed_line_iff:
  "wellformed_line line \<longleftrightarrow>
     length (pipe_segments line) \<le> MAX_PIPE \<and>
     (\<forall>i < length (pipe_segments line).
        wellformed_stage (i = length (pipe_segments line) - 1)
          (segment_items (pipe_segments line ! i)) \<and>
        (1 < length (pipe_segments line) \<and> i \<noteq> 0 \<longrightarrow>
           in_operands (segment_items (pipe_segments line ! i)) = []) \<and>
        (1 < length (pipe_segments line) \<and> i \<noteq> length (pipe_segments line) - 1 \<longrightarrow>
           out_operands (segment_items (pipe_segments line ! i)) = []))"
proof -
  have upt: "list_all P [0..<n] \<longleftrightarrow> (\<forall>i<n. P i)" for P :: "nat \<Rightarrow> bool" and n
    by (auto simp: list_all_iff)
  show ?thesis
    unfolding wellformed_line_def line_shape_def within_limits_def wellformed_stage_def
      Let_def upt list_all_length
    by auto
qed

lemma described_stage_no_input:
  assumes "None \<notin> set (in_operands its)"
  shows "input_file (described_stage its) = None \<longleftrightarrow> in_operands its = []"
proof (cases "in_operands its")
  case Nil
  then show ?thesis by (simp add: described_stage_def)
next
  case (Cons a list)
  with assms obtain y where "a = Some y" by (cases a) auto
  with Cons show ?thesis by (simp add: described_stage_def)
qed

lemma described_stage_no_output:
  assumes "None \<notin> set (out_operands its)"
  shows "output_file (described_stage its) = None \<longleftrightarrow> out_operands its = []"
proof (cases "out_operands its")
  case Nil
  then show ?thesis by (simp add: described_stage_def)
next
  case (Cons a list)
  with assms obtain y where "a = Some y" by (cases a) auto
  with Cons show ?thesis by (simp add: described_stage_def)
qed

lemma parse_command_sound:
  assumes room: "MAX_PIPE \<le> length commands"
    and ok: "ret (parse_command (Some line) commands n0) = 0"
  shows "wellformed_line line"
    and "pipeline (parse_command (Some line) commands n0) =
      map (\<lambda>segment. described_stage (segment_items segment)) (pipe_segments line)"
    and "num_out (parse_command (Some line) commands n0) = int (length (pipe_segments line))"
    and "diag (parse_command (Some line) commands n0) = None"
proof -
  let ?segs = "pipe_segments line"
  let ?N = "length ?segs"
  from room have "?N \<le> MAX_PIPE \<longrightarrow> ?N \<le> length commands" by simp
  then have "wellformed_line line \<and>
    pipeline (parse_command (Some line) commands n0) =
      map (\<lambda>segment. described_stage (segment_items segment)) ?segs \<and>
    num_out (parse_command (Some line) commands n0) = int ?N \<and>
    diag (parse_command (Some line) commands n0) = None"
  proof (cases rule: parse_command_cases [of line commands n0])
    case (failed e cmds')
    with ok show ?thesis by (simp add: parse_failed_def)
  next
    case (ok cmds')
    from split_pipes_line [OF ok(2)] have bound: "?N \<le> MAX_PIPE" by simp
    with room have fits: "0 + ?N \<le> length commands" by simp
    have len: "length cmds' = length commands"
      using parse_segments_length [of ?N 0 ?segs commands] ok(3) by simp
    have stage: "wellformed_stage (i = ?N - 1) (segment_items (?segs ! i)) \<and>
        cmds' ! i = described_stage (segment_items (?segs ! i))" if "i < ?N" for i
    proof -
      from parse_segments_sound [OF ok(3) fits that]
      have s: "stage_of (i = ?N - 1) (?segs ! i) = (None, cmds' ! i)"
        and a: "args (cmds' ! i) \<noteq> []" by simp_all
      from s have f: "fst (stage_of (i = ?N - 1) (?segs ! i)) = None"
        and c: "snd (stage_of (i = ?N - 1) (?segs ! i)) = cmds' ! i" by simp_all
      from stage_of_sound [OF f] a c show ?thesis by simp
    qed
    have pl: "take ?N cmds' = map (\<lambda>segment. described_stage (segment_items segment)) ?segs"
      using stage fits len by (intro nth_equalityI) simp_all
    have redir: "(i \<noteq> 0 \<longrightarrow> in_operands (segment_items (?segs ! i)) = []) \<and>
        (i \<noteq> ?N - 1 \<longrightarrow> out_operands (segment_items (?segs ! i)) = [])"
      if "1 < ?N" "i < ?N" for i
    proof -
      from ok(4) that(1) have v: "validate_redirection ?N 0 (take ?N cmds') = None" by simp
      from that(2) fits len have "i < length (take ?N cmds')" by simp
      from validate_sound [OF v this] that(2) stage [OF that(2)]
      have "(i \<noteq> 0 \<longrightarrow> input_file (described_stage (segment_items (?segs ! i))) = None) \<and>
        (i \<noteq> ?N - 1 \<longrightarrow> output_file (described_stage (segment_items (?segs ! i))) = None)"
        by simp
      moreover from stage [OF that(2)]
      have "None \<notin> set (in_operands (segment_items (?segs ! i)))"
        "None \<notin> set (out_operands (segment_items (?segs ! i)))"
        by (simp_all add: wellformed_stage_def stage_shape_def)
      ultimately show ?thesis
        by (simp add: described_stage_no_input described_stage_no_output)
    qed
    have "wellformed_line line"
      unfolding wellformed_line_iff using bound stage redir by blast
    with pl show ?thesis by (simp add: ok(1) pipeline_def)
  qed
  then show "wellformed_line line"
    and "pipeline (parse_command (Some line) commands n0) =
      map (\<lambda>segment. described_stage (segment_items segment)) (pipe_segments line)"
    and "num_out (parse_command (Some line) commands n0) = int (length (pipe_segments line))"
    and "diag (parse_command (Some line) commands n0) = None"
    by simp_all
qed

lemma parse_command_complete:
  assumes room: "MAX_PIPE \<le> length commands"
    and wf: "wellformed_line line"
  shows "ret (parse_command (Some line) commands n0) = 0"
proof -
  let ?segs = "pipe_segments line"
  let ?N = "length ?segs"
  from wf have bound: "?N \<le> MAX_PIPE"
    and st: "\<And>i. i < ?N \<Longrightarrow> wellformed_stage (i = ?N - 1) (segment_items (?segs ! i))"
    and rin: "\<And>i. i < ?N \<Longrightarrow> 1 < ?N \<Longrightarrow> i \<noteq> 0 \<Longrightarrow>
        in_operands (segment_items (?segs ! i)) = []"
    and rout: "\<And>i. i < ?N \<Longrightarrow> 1 < ?N \<Longrightarrow> i \<noteq> ?N - 1 \<Longrightarrow>
        out_operands (segment_items (?segs ! i)) = []"
    unfolding wellformed_line_iff by blast+
  from bound room have fits: "0 + ?N \<le> length commands" by simp
  have "segment \<noteq> []" if "segment \<in> set ?segs" for segment
  proof -
    from that obtain i where i: "i < ?N" "segment = ?segs ! i" by (auto simp: in_set_conv_nth)
    from stage_of_complete(3) [OF st [OF i(1)]] i(2) show ?thesis by auto
  qed
  then have "[] \<notin> set (ptr_fields ''|'' (Some line))" by (auto simp: pipe_segments_def)
  moreover from bound have "length ([] @ ptr_fields ''|'' (Some line)) \<le> MAX_PIPE"
    by (simp add: pipe_segments_def)
  ultimately have split: "split_pipes (Some line) [] = Inr ?segs"
    using split_pipes_complete [of "Some line" "[]"] by (simp add: pipe_segments_def)
  have "fst (parse_segments ?N 0 ?segs commands) = None"
  proof (rule parse_segments_complete)
    fix j assume "j < ?N"
    from stage_of_complete [OF st [OF this]]
    show "trim_whitespace (?segs ! j) \<noteq> [] \<and>
       fst (stage_of (0 + j = ?N - 1) (?segs ! j)) = None \<and>
       args (snd (stage_of (0 + j = ?N - 1) (?segs ! j))) \<noteq> []" by simp
  qed
  then obtain cmds' where ps: "parse_segments ?N 0 ?segs commands = (None, cmds')"
    by (cases "parse_segments ?N 0 ?segs commands") auto
  have len: "length cmds' = length commands"
    using parse_segments_length [of ?N 0 ?segs commands] ps by simp
  have content: "cmds' ! i = described_stage (segment_items (?segs ! i))" if "i < ?N" for i
  proof -
    from parse_segments_sound [OF ps fits that]
    have s: "stage_of (i = ?N - 1) (?segs ! i) = (None, cmds' ! i)" by simp
    then have "fst (stage_of (i = ?N - 1) (?segs ! i)) = None"
      "snd (stage_of (i = ?N - 1) (?segs ! i)) = cmds' ! i" by simp_all
    with stage_of_sound(1) show ?thesis by metis
  qed
  have v: "validate_redirection ?N 0 (take ?N cmds') = None" if many: "1 < ?N"
  proof (rule validate_complete)
    fix j assume "j < length (take ?N cmds')"
    with fits len have j: "j < ?N" by simp
    from st [OF j] have "None \<notin> set (in_operands (segment_items (?segs ! j)))"
        "None \<notin> set (out_operands (segment_items (?segs ! j)))"
      by (simp_all add: wellformed_stage_def stage_shape_def)
    with rin [OF j many] rout [OF j many] content [OF j] j
    show "(0 + j \<noteq> 0 \<longrightarrow> input_file (take ?N cmds' ! j) = None) \<and>
        (0 + j \<noteq> ?N - 1 \<longrightarrow> output_file (take ?N cmds' ! j) = None)"
      by (simp add: described_stage_no_input described_stage_no_output)
  qed
  from split ps v show ?thesis
    by (simp add: parse_command_def)
qed

section \<open>Where a diagnostic comes from\<close>

lemma split_pipes_error:
  "split_pipes p acc = Inl e \<Longrightarrow> \<not> validation_error e"
proof (induction p acc rule: split_pipes.induct)
  case (1 line_ptr segments)
  obtain tok q where sq: "strsep ''|'' line_ptr = (tok, q)"
    by (cases "strsep ''|'' line_ptr")
  show ?case
  proof (cases tok)
    case None
    with sq "1.prems" show ?thesis by (simp add: split_pipes.simps [of line_ptr])
  next
    case (Some segment)
    show ?thesis
    proof (cases "segment = [] \<or> MAX_PIPE \<le> length segments")
      case True
      with sq Some "1.prems" show ?thesis
        by (auto simp: split_pipes.simps [of line_ptr] validation_error_def split: if_splits)
    next
      case False
      with sq Some "1.prems" have "split_pipes q (segments @ [segment]) = Inl e"
        by (simp add: split_pipes.simps [of line_ptr])
      with "1.IH" [OF sq [symmetric] Some] False show ?thesis by simp
    qed
  qed
qed

lemma classify_error:
  "fst (classify l ts cmd ic oc) = Some e \<Longrightarrow> \<not> validation_error e"
  by (induction l ts cmd ic oc rule: classify.induct)
    (auto simp: validation_error_def split: list.splits if_splits)

lemma parse_segments_error:
  "fst (parse_segments n i segs cmds) = Some e \<Longrightarrow> \<not> validation_error e"
proof (induction segs arbitrary: i cmds)
  case Nil
  then show ?case by simp
next
  case (Cons segment rest)
  obtain e' cmd where tl:
    "token_loop (i = n - 1) (Some (trim_whitespace segment)) empty_command 0 0 = (e', cmd)"
    by (cases "token_loop (i = n - 1) (Some (trim_whitespace segment)) empty_command 0 0")
  then have cl: "fst (classify (i = n - 1) (tokens (trim_whitespace segment)) empty_command 0 0) = e'"
    by (simp add: token_loop_classify)
  show ?case
  proof (cases "trim_whitespace segment = []")
    case True
    with Cons.prems show ?thesis by (auto simp: validation_error_def split: if_splits)
  next
    case False
    show ?thesis
    proof (cases e')
      case (Some err)
      with Cons.prems False tl have "e = err" by simp
      with cl Some classify_error show ?thesis by blast
    next
      case None
      show ?thesis
      proof (cases "args cmd = []")
        case True
        with Cons.prems False tl None show ?thesis by (simp add: validation_error_def)
      next
        case nonempty: False
        with Cons.prems False tl None
        have "fst (parse_segments n (Suc i) rest (cmds[i := cmd])) = Some e" by simp
        then show ?thesis by (rule Cons.IH)
      qed
    qed
  qed
qed

lemma validate_error:
  "validate_redirection n i cs = Some e \<Longrightarrow>
     \<exists>j < length cs.
       (e = Input_not_allowed (i + j + 1) \<and> i + j \<noteq> 0 \<and> input_file (cs ! j) \<noteq> None) \<or>
       (e = Output_not_allowed (i + j + 1) \<and> i + j \<noteq> n - 1 \<and> output_file (cs ! j) \<noteq> None)"
proof (induction cs arbitrary: i)
  case Nil
  then show ?case by simp
next
  case (Cons c cs)
  show ?case
  proof (cases "(i \<noteq> 0 \<and> input_file c \<noteq> None) \<or> (i \<noteq> n - 1 \<and> output_file c \<noteq> None)")
    case True
    with Cons.prems have "(e = Input_not_allowed (i + 0 + 1) \<and> i + 0 \<noteq> 0 \<and>
        input_file ((c # cs) ! 0) \<noteq> None) \<or>
      (e = Output_not_allowed (i + 0 + 1) \<and> i + 0 \<noteq> n - 1 \<and>
        output_file ((c # cs) ! 0) \<noteq> None)"
      by (auto split: if_splits)
    then show ?thesis by (intro exI [of _ 0]) simp
  next
    case False
    with Cons.prems have "validate_redirection n (Suc i) cs = Some e" by auto
    from Cons.IH [OF this] obtain j where j: "j < length cs"
      "(e = Input_not_allowed (Suc i + j + 1) \<and> Suc i + j \<noteq> 0 \<and> input_file (cs ! j) \<noteq> None) \<or>
       (e = Output_not_allowed (Suc i + j + 1) \<and> Suc i + j \<noteq> n - 1 \<and>
          output_file (cs ! j) \<noteq> None)"
      by blast
    then show ?thesis by (intro exI [of _ "Suc j"]) simp
  qed
qed

lemma parse_command_phases [consumes 1, case_names split_failed segment_failed validation_failed ok]:
  assumes len: "length (pipe_segments line) \<le> MAX_PIPE \<longrightarrow> length (pipe_segments line) \<le> length commands"
  obtains e where
      "parse_command (Some line) commands n0 = parse_failed e commands n0"
      "split_pipes (Some line) [] = Inl e"
  | e cmds' where
      "parse_command (Some line) commands n0 = parse_failed e cmds' n0"
      "split_pipes (Some line) [] = Inr (pipe_segments line)"
      "parse_segments (length (pipe_segments line)) 0 (pipe_segments line) commands = (Some e, cmds')"
  | e cmds' where
      "parse_command (Some line) commands n0 = parse_failed e cmds' n0"
      "split_pipes (Some line) [] = Inr (pipe_segments line)"
      "parse_segments (length (pipe_segments line)) 0 (pipe_segments line) commands = (None, cmds')"
      "1 < length (pipe_segments line)"
      "validate_redirection (length (pipe_segments line)) 0
         (take (length (pipe_segments line)) cmds') = Some e"
  | cmds' where
      "parse_command (Some line) commands n0 =
         \<lparr>ret = 0, diag = None, commands_out = cmds',
          num_out = int (length (pipe_segments line))\<rparr>"
      "split_pipes (Some line) [] = Inr (pipe_segments line)"
      "parse_segments (length (pipe_segments line)) 0 (pipe_segments line) commands = (None, cmds')"
      "1 < length (pipe_segments line) \<longrightarrow>
         validate_redirection (length (pipe_segments line)) 0
           (take (length (pipe_segments line)) cmds') = None"
proof (cases "split_pipes (Some line) []")
  case (Inl e)
  then have "parse_command (Some line) commands n0 = parse_failed e commands n0"
    by (simp add: parse_command_def)
  then show ?thesis using Inl by (rule that(1))
next
  case (Inr segments)
  with split_pipes_line have segs: "segments = pipe_segments line" by blast
  obtain e cmds' where ps: "parse_segments (length segments) 0 segments commands = (e, cmds')"
    by (cases "parse_segments (length segments) 0 segments commands")
  show ?thesis
  proof (cases e)
    case (Some err)
    with Inr ps have "parse_command (Some line) commands n0 = parse_failed err cmds' n0"
      by (simp add: parse_command_def)
    with Inr ps Some segs show ?thesis by (intro that(2)) simp_all
  next
    case None
    show ?thesis
    proof (cases "if 1 < length segments
        then validate_redirection (length segments) 0 (take (length segments) cmds') else None")
      case (Some err)
      with Inr ps None have "parse_command (Some line) commands n0 = parse_failed err cmds' n0"
        by (simp add: parse_command_def)
      moreover from Some have "1 < length segments"
        "validate_redirection (length segments) 0 (take (length segments) cmds') = Some err"
        by (simp_all split: if_splits)
      ultimately show ?thesis using Inr ps None segs by (intro that(3)) simp_all
    next
      case v: None
      with Inr ps None have "parse_command (Some line) commands n0 =
         \<lparr>ret = 0, diag = None, commands_out = cmds', num_out = int (length segments)\<rparr>"
        by (simp add: parse_command_def)
      moreover from v have "1 < length segments \<longrightarrow>
         validate_redirection (length segments) 0 (take (length segments) cmds') = None"
        by (simp split: if_splits)
      ultimately show ?thesis
        using Inr ps None segs by (intro that(4)) simp_all
    qed
  qed
qed

lemma parse_command_ret:
  "ret (parse_command input commands n0) = 0 \<or> ret (parse_command input commands n0) = - 1"
  "ret (parse_command input commands n0) \<noteq> 0 \<Longrightarrow> num_out (parse_command input commands n0) = n0"
  "ret (parse_command (Some line) commands n0) \<noteq> 0 \<Longrightarrow>
     diag (parse_command (Some line) commands n0) \<noteq> None"
  "ret (parse_command (Some line) commands n0) = 0 \<Longrightarrow>
     diag (parse_command (Some line) commands n0) = None"
  by (auto simp: parse_command_def parse_failed_def
      split: option.splits sum.splits prod.splits if_splits)

lemma stage_of_background:
  assumes "fst (stage_of l segment) = None"
    and "Background_mark \<in> set (segment_items segment)"
  shows "\<exists>pre post. segment = pre @ ''&'' @ post \<and> list_all isspace post"
proof -
  let ?t = "trim_whitespace segment"
  let ?ts = "tokens ?t"
  from assms(1) have ok: "fst (classify l ?ts empty_command 0 0) = None"
    by (simp add: stage_of_classify)
  from classify_background [OF segment_tokens_trimmed ok] assms(2)
  have l: "last ?ts = ''&''" by (simp add: segment_items_def)
  from assms(2) have "?ts \<noteq> []" by (auto simp: segment_items_def)
  from tokens_trimmed(2) [OF trim_whitespace_props(1) this] l
  obtain pre where pre: "?t = pre @ ''&''" by auto
  from trim_whitespace_props(2) [of segment] obtain pre0 post
    where "segment = pre0 @ ?t @ post" "list_all isspace post" by blast
  with pre have "segment = (pre0 @ pre) @ ''&'' @ post \<and> list_all isspace post" by simp
  then show ?thesis by blast
qed

lemma stage_of_last_token:
  assumes "fst (stage_of l segment) = None"
    and "Background_mark \<in> set (segment_items segment)"
  shows "last (tokens (trim_whitespace segment)) = ''&''"
proof -
  from assms(1) have "fst (classify l (tokens (trim_whitespace segment)) empty_command 0 0) = None"
    by (simp add: stage_of_classify)
  from classify_background [OF segment_tokens_trimmed this] assms(2)
  show ?thesis by (simp add: segment_items_def)
qed

lemma parse_command_indep:
  assumes "MAX_PIPE \<le> length c1" and "MAX_PIPE \<le> length c2"
  shows "ret (parse_command input c1 n1) = ret (parse_command input c2 n2)"
    and "diag (parse_command input c1 n1) = diag (parse_command input c2 n2)"
    and "ret (parse_command input c1 n1) = 0 \<Longrightarrow>
      num_out (parse_command input c1 n1) = num_out (parse_command input c2 n2) \<and>
      pipeline (parse_command input c1 n1) = pipeline (parse_command input c2 n2)"
proof -
  have "ret (parse_command input c1 n1) = ret (parse_command input c2 n2) \<and>
    diag (parse_command input c1 n1) = diag (parse_command input c2 n2) \<and>
    (ret (parse_command input c1 n1) = 0 \<longrightarrow>
      num_out (parse_command input c1 n1) = num_out (parse_command input c2 n2) \<and>
      pipeline (parse_command input c1 n1) = pipeline (parse_command input c2 n2))"
  proof (cases input)
    case None
    then show ?thesis by (simp add: parse_command_def)
  next
    case (Some line)
    let ?segs = "pipe_segments line"
    let ?N = "length ?segs"
    from assms have l1: "?N \<le> MAX_PIPE \<longrightarrow> ?N \<le> length c1"
      and l2: "?N \<le> MAX_PIPE \<longrightarrow> ?N \<le> length c2" by simp_all
    from l1 show ?thesis
    proof (cases rule: parse_command_phases [of line c1 n1])
      case (split_failed e)
      then show ?thesis
        by (simp add: Some parse_command_def parse_failed_def)
    next
      case (segment_failed e cmds')
      from segment_failed(3) parse_segments_fst_indep [of ?N 0 ?segs c1 c2]
      have "fst (parse_segments ?N 0 ?segs c2) = Some e" by simp
      then obtain cmds2 where "parse_segments ?N 0 ?segs c2 = (Some e, cmds2)"
        by (cases "parse_segments ?N 0 ?segs c2") auto
      with segment_failed split_pipes_line [OF segment_failed(2)] show ?thesis
        by (simp add: Some parse_command_def parse_failed_def)
    next
      case (validation_failed e cmds')
      from split_pipes_line [OF validation_failed(2)] assms
      have f1: "0 + ?N \<le> length c1" and f2: "0 + ?N \<le> length c2" by simp_all
      from validation_failed(3) parse_segments_fst_indep [of ?N 0 ?segs c1 c2]
      have "fst (parse_segments ?N 0 ?segs c2) = None" by simp
      then obtain cmds2 where p2: "parse_segments ?N 0 ?segs c2 = (None, cmds2)"
        by (cases "parse_segments ?N 0 ?segs c2") auto
      have "cmds' ! i = cmds2 ! i" if "i < ?N" for i
        using parse_segments_sound [OF validation_failed(3) f1 that]
          parse_segments_sound [OF p2 f2 that] by simp
      moreover have "length cmds' = length c1" "length cmds2 = length c2"
        using parse_segments_length [of ?N 0 ?segs c1] parse_segments_length [of ?N 0 ?segs c2]
          validation_failed(3) p2 by simp_all
      ultimately have "take ?N cmds' = take ?N cmds2"
        using f1 f2 by (intro nth_equalityI) simp_all
      with validation_failed p2 show ?thesis
        by (simp add: Some parse_command_def parse_failed_def)
    next
      case (ok cmds')
      then have r1: "ret (parse_command (Some line) c1 n1) = 0" by simp
      from parse_command_sound [OF assms(1) r1] have wf: "wellformed_line line"
        and p1: "pipeline (parse_command (Some line) c1 n1) =
          map (\<lambda>segment. described_stage (segment_items segment)) ?segs"
        and m1: "num_out (parse_command (Some line) c1 n1) = int ?N"
        and d1: "diag (parse_command (Some line) c1 n1) = None" by simp_all
      from parse_command_complete [OF assms(2) wf]
      have r2: "ret (parse_command (Some line) c2 n2) = 0" .
      from parse_command_sound [OF assms(2) r2] r1 r2 p1 m1 d1 show ?thesis
        by (simp add: Some)
    qed
  qed
  then show "ret (parse_command input c1 n1) = ret (parse_command input c2 n2)"
    and "diag (parse_command input c1 n1) = diag (parse_command input c2 n2)"
    and "ret (parse_command input c1 n1) = 0 \<Longrightarrow>
      num_out (parse_command input c1 n1) = num_out (parse_command input c2 n2) \<and>
      pipeline (parse_command input c1 n1) = pipeline (parse_command input c2 n2)"
    by simp_all
qed

lemma main_step_syntax_error:
  assumes "trim_whitespace (c_string (if bytes \<noteq> [] \<and> last bytes = CHR 0x0A
             then butlast bytes else bytes)) = line"
    and "line \<noteq> []"
    and "ret (parse_command (Some line) (main_commands sh) (main_num_commands sh)) \<noteq> 0"
    and "diag (parse_command (Some line) (main_commands sh) (main_num_commands sh)) = Some e"
  shows "main_step os sh (Some bytes) =
    (Continue_loop,
     sh\<lparr>main_commands :=
          commands_out (parse_command (Some line) (main_commands sh) (main_num_commands sh))\<rparr>,
     (if isatty_stdin os then [Write_stdout ''$ ''] else []) @
       [Write_stderr (error_message e)])"
proof -
  from assms(3) have "num_out (parse_command (Some line) (main_commands sh)
      (main_num_commands sh)) = main_num_commands sh"
    by (rule parse_command_ret(2))
  with assms show ?thesis
    by (simp add: main_step_def Let_def)
qed

lemma stages_ok_split:
  assumes "length (pipe_segments line) \<le> MAX_PIPE"
    and "\<And>i. i < length (pipe_segments line) \<Longrightarrow>
      wellformed_stage (i = length (pipe_segments line) - 1)
        (segment_items (pipe_segments line ! i))"
  shows "split_pipes (Some line) [] = Inr (pipe_segments line)"
proof -
  let ?segs = "pipe_segments line"
  have "segment \<noteq> []" if "segment \<in> set ?segs" for segment
  proof -
    from that obtain i where i: "i < length ?segs" "segment = ?segs ! i"
      by (auto simp: in_set_conv_nth)
    from stage_of_complete(3) [OF assms(2) [OF i(1)]] i(2) show ?thesis by auto
  qed
  then have "[] \<notin> set (ptr_fields ''|'' (Some line))" by (auto simp: pipe_segments_def)
  moreover from assms(1) have "length ([] @ ptr_fields ''|'' (Some line)) \<le> MAX_PIPE"
    by (simp add: pipe_segments_def)
  ultimately show ?thesis
    using split_pipes_complete [of "Some line" "[]"] by (simp add: pipe_segments_def)
qed

lemma stages_ok_segments:
  assumes "\<And>i. i < length (pipe_segments line) \<Longrightarrow>
      wellformed_stage (i = length (pipe_segments line) - 1)
        (segment_items (pipe_segments line ! i))"
  shows "fst (parse_segments (length (pipe_segments line)) 0 (pipe_segments line) commands) = None"
proof (rule parse_segments_complete)
  fix j assume "j < length (pipe_segments line)"
  from stage_of_complete [OF assms [OF this]]
  show "trim_whitespace (pipe_segments line ! j) \<noteq> [] \<and>
     fst (stage_of (0 + j = length (pipe_segments line) - 1) (pipe_segments line ! j)) = None \<and>
     args (snd (stage_of (0 + j = length (pipe_segments line) - 1) (pipe_segments line ! j))) \<noteq> []"
    by simp
qed

lemma parsed_stage:
  assumes "parse_segments (length (pipe_segments line)) 0 (pipe_segments line) commands =
      (None, cmds')"
    and "length (pipe_segments line) \<le> length commands"
    and "i < length (pipe_segments line)"
  shows "cmds' ! i = described_stage (segment_items (pipe_segments line ! i))"
    and "wellformed_stage (i = length (pipe_segments line) - 1)
      (segment_items (pipe_segments line ! i))"
proof -
  from assms(2) have "0 + length (pipe_segments line) \<le> length commands" by simp
  from parse_segments_sound [OF assms(1) this assms(3)]
  have s: "stage_of (i = length (pipe_segments line) - 1) (pipe_segments line ! i) =
      (None, cmds' ! i)"
    and a: "args (cmds' ! i) \<noteq> []" by simp_all
  from s have f: "fst (stage_of (i = length (pipe_segments line) - 1) (pipe_segments line ! i)) = None"
    and c: "snd (stage_of (i = length (pipe_segments line) - 1) (pipe_segments line ! i)) = cmds' ! i"
    by simp_all
  from stage_of_sound [OF f] a c
  show "cmds' ! i = described_stage (segment_items (pipe_segments line ! i))"
    and "wellformed_stage (i = length (pipe_segments line) - 1)
      (segment_items (pipe_segments line ! i))"
    by simp_all
qed

lemma parsed_stage_loop:
  assumes "parse_segments (length (pipe_segments line)) 0 (pipe_segments line) commands =
      (None, cmds')"
    and "length (pipe_segments line) \<le> length commands"
    and "i < length (pipe_segments line)"
  shows "fst (stage_of (i = length (pipe_segments line) - 1) (pipe_segments line ! i)) = None"
proof -
  from assms(2) have "0 + length (pipe_segments line) \<le> length commands" by simp
  from parse_segments_sound [OF assms(1) this assms(3)] show ?thesis by simp
qed

lemma parsed_single_stage:
  assumes "MAX_PIPE \<le> length commands"
    and "wellformed_line line"
    and "length (pipe_segments line) = 1"
  shows "ret (parse_command (Some line) commands n0) = 0"
    and "num_out (parse_command (Some line) commands n0) = 1"
    and "commands_out (parse_command (Some line) commands n0) ! 0 =
      described_stage (segment_items (pipe_segments line ! 0))"
    and "1 \<le> length (commands_out (parse_command (Some line) commands n0))"
proof -
  let ?r = "parse_command (Some line) commands n0"
  from parse_command_complete [OF assms(1,2)] show ok: "ret ?r = 0" .
  note s = parse_command_sound [OF assms(1) ok]
  from s(3) assms(3) show n: "num_out ?r = 1" by simp
  from s(2) assms(3) have "pipeline ?r ! 0 = described_stage (segment_items (pipe_segments line ! 0))"
    by simp
  moreover from s(2) assms(3) have "length (pipeline ?r) = 1" by simp
  ultimately show "commands_out ?r ! 0 = described_stage (segment_items (pipe_segments line ! 0))"
    and "1 \<le> length (commands_out ?r)"
    using n by (auto simp: pipeline_def)
qed

section \<open>The spawning loop\<close>

lemma spawn_loop_parent:
  "(\<And>j. j < n \<Longrightarrow> fork_result os j \<noteq> 0) \<Longrightarrow> \<exists>x. spawn_loop os cmds n i pfd pids evs = Inr x"
proof (induction os cmds n i pfd pids evs rule: spawn_loop.induct)
  case (1 os commands num_commands i prev_fd pids evs)
  show ?case
  proof (cases "i < num_commands")
    case False
    then show ?thesis by (simp add: spawn_loop.simps [of _ _ num_commands i])
  next
    case True
    with "1.prems" have nz: "fork_result os i \<noteq> 0" by simp
    show ?thesis
    proof (cases "if i < num_commands - 1 then pipe_result os i else Some (- 1, - 1)")
      case None
      with True show ?thesis by (simp add: spawn_loop.simps [of _ _ num_commands i])
    next
      case (Some pipefd)
      show ?thesis
      proof (cases "fork_result os i < 0")
        case neg: True
        with True Some show ?thesis
          by (simp add: spawn_loop.simps [of _ _ num_commands i] Let_def)
      next
        case pos: False
        from "1.IH" [OF True refl Some refl refl pos nz] "1.prems"
        obtain x where "spawn_loop os commands num_commands (Suc i)
          (if i < num_commands - 1 then fst pipefd else prev_fd) (pids @ [fork_result os i])
          ((evs @ (if i < num_commands - 1 then [Call_pipe] else []) @ [Call_fork]) @
           (if prev_fd \<noteq> - 1 then [Call_close prev_fd] else []) @
           (if i < num_commands - 1 then [Call_close (snd pipefd)] else [])) = Inr x"
          by blast
        with True Some pos nz
        have "spawn_loop os commands num_commands i prev_fd pids evs = Inr x"
          by (simp add: spawn_loop.simps [of _ _ num_commands i] Let_def)
        then show ?thesis by blast
      qed
    qed
  qed
qed

lemma child_process_no_return:
  "fst (child_process os cmd has_next prev_fd pipefd) \<noteq> Returns v"
  by (auto simp: child_process_def Let_def split: prod.splits list.splits)

lemma spawn_loop_child:
  "spawn_loop os cmds n i pfd pids evs = Inl (out, cevs) \<Longrightarrow> out \<noteq> Returns v"
proof (induction os cmds n i pfd pids evs rule: spawn_loop.induct)
  case (1 os commands num_commands i prev_fd pids evs)
  show ?case
  proof (cases "i < num_commands")
    case False
    with "1.prems" show ?thesis by (simp add: spawn_loop.simps [of _ _ num_commands i])
  next
    case True
    show ?thesis
    proof (cases "if i < num_commands - 1 then pipe_result os i else Some (- 1, - 1)")
      case None
      with True "1.prems" show ?thesis by (simp add: spawn_loop.simps [of _ _ num_commands i])
    next
      case (Some pipefd)
      consider (neg) "fork_result os i < 0" | (zero) "fork_result os i = 0"
        | (pos) "\<not> fork_result os i < 0" "fork_result os i \<noteq> 0"
        by linarith
      then show ?thesis
      proof cases
        case neg
        with True Some "1.prems" show ?thesis
          by (simp add: spawn_loop.simps [of _ _ num_commands i] Let_def)
      next
        case zero
        with True Some "1.prems" child_process_no_return [of os "commands ! i" "i < num_commands - 1" prev_fd pipefd v]
        show ?thesis
          by (auto simp: spawn_loop.simps [of _ _ num_commands i] Let_def split: prod.splits)
      next
        case pos
        with True Some "1.prems" have "spawn_loop os commands num_commands (Suc i)
          (if i < num_commands - 1 then fst pipefd else prev_fd) (pids @ [fork_result os i])
          ((evs @ (if i < num_commands - 1 then [Call_pipe] else []) @ [Call_fork]) @
           (if prev_fd \<noteq> - 1 then [Call_close prev_fd] else []) @
           (if i < num_commands - 1 then [Call_close (snd pipefd)] else [])) = Inl (out, cevs)"
          by (simp add: spawn_loop.simps [of _ _ num_commands i] Let_def)
        from "1.IH" [OF True refl Some refl refl pos this] show ?thesis .
      qed
    qed
  qed
qed

lemma run_external_returns:
  "fst (run_external os commands n cwd) = Returns v \<Longrightarrow> v = 1"
  by (auto simp: run_external_def Let_def split: sum.splits prod.splits if_splits
      dest: spawn_loop_child)

lemma run_external_parent:
  "(\<And>j. j < nat n \<Longrightarrow> fork_result os j \<noteq> 0) \<Longrightarrow> fst (run_external os commands n cwd) = Returns 1"
  using spawn_loop_parent [of "nat n" os commands 0 "- 1" "[]" "[]"]
  by (auto simp: run_external_def Let_def split: sum.splits prod.splits if_splits)

lemma redirect_io_no_chdir:
  "Call_chdir d \<notin> set (snd (redirect_io os cmd))"
  by (auto simp: redirect_io_def redirect_input_def redirect_output_def
      split: option.splits prod.splits if_splits)

lemma child_process_no_chdir:
  "Call_chdir d \<notin> set (snd (child_process os cmd has_next prev_fd pipefd))"
  using redirect_io_no_chdir [of d os cmd]
  by (auto simp: child_process_def Let_def split: prod.splits list.splits if_splits)

lemma child_process_runs:
  "fst (redirect_io os cmd) = 0 \<Longrightarrow> args cmd = name # rest \<Longrightarrow> execvp_found os name \<Longrightarrow>
   fst (child_process os cmd has_next prev_fd pipefd) = Child_runs name (name # rest)"
  by (auto simp: child_process_def Let_def split: prod.splits)

lemma spawn_loop_events:
  "\<exists>new. snd (snd (case spawn_loop os cmds n i pfd pids evs of
       Inl (out, evs') \<Rightarrow> (0, [], evs') | Inr x \<Rightarrow> x)) = evs @ new \<and>
     (\<forall>d. Call_chdir d \<notin> set new)"
proof (induction os cmds n i pfd pids evs rule: spawn_loop.induct)
  case (1 os commands num_commands i prev_fd pids evs)
  show ?case
  proof (cases "i < num_commands")
    case False
    then show ?thesis by (simp add: spawn_loop.simps [of _ _ num_commands i])
  next
    case True
    show ?thesis
    proof (cases "if i < num_commands - 1 then pipe_result os i else Some (- 1, - 1)")
      case None
      with True show ?thesis by (simp add: spawn_loop.simps [of _ _ num_commands i])
    next
      case (Some pipefd)
      consider (neg) "fork_result os i < 0" | (zero) "fork_result os i = 0"
        | (pos) "\<not> fork_result os i < 0" "fork_result os i \<noteq> 0"
        by linarith
      then show ?thesis
      proof cases
        case neg
        with True Some show ?thesis
          by (simp add: spawn_loop.simps [of _ _ num_commands i] Let_def)
      next
        case zero
        with True Some
          child_process_no_chdir [of _ os "commands ! i" "i < num_commands - 1" prev_fd pipefd]
        show ?thesis
          by (auto simp: spawn_loop.simps [of _ _ num_commands i] Let_def split: prod.splits)
      next
        case pos
        let ?evs2 = "(evs @ (if i < num_commands - 1 then [Call_pipe] else []) @ [Call_fork]) @
           (if prev_fd \<noteq> - 1 then [Call_close prev_fd] else []) @
           (if i < num_commands - 1 then [Call_close (snd pipefd)] else [])"
        let ?rest = "spawn_loop os commands num_commands (Suc i)
          (if i < num_commands - 1 then fst pipefd else prev_fd) (pids @ [fork_result os i]) ?evs2"
        from True Some pos
        have eq: "spawn_loop os commands num_commands i prev_fd pids evs = ?rest"
          by (simp add: spawn_loop.simps [of _ _ num_commands i] Let_def)
        from "1.IH" [OF True refl Some refl refl pos]
        obtain new where new: "snd (snd (case ?rest of
             Inl (out, evs') \<Rightarrow> (0, [], evs') | Inr x \<Rightarrow> x)) = ?evs2 @ new"
          "\<forall>d. Call_chdir d \<notin> set new"
          by blast
        let ?new = "((if i < num_commands - 1 then [Call_pipe] else []) @ [Call_fork]) @
           (if prev_fd \<noteq> - 1 then [Call_close prev_fd] else []) @
           (if i < num_commands - 1 then [Call_close (snd pipefd)] else []) @ new"
        from new have "snd (snd (case ?rest of
             Inl (out, evs') \<Rightarrow> (0, [], evs') | Inr x \<Rightarrow> x)) = evs @ ?new"
          "\<forall>d. Call_chdir d \<notin> set ?new"
          by simp_all
        with eq show ?thesis by metis
      qed
    qed
  qed
qed

lemma spawn_loop_all:
  assumes "\<And>j. i \<le> j \<Longrightarrow> j < n \<Longrightarrow> 0 < fork_result os j"
    and "\<And>j. i \<le> j \<Longrightarrow> j < n - 1 \<Longrightarrow> pipe_result os j \<noteq> None"
  shows "\<exists>p evs'. spawn_loop os cmds n i pfd pids evs =
            Inr (p, pids @ map (fork_result os) [i..<n], evs') \<and>
          count_list evs' Call_fork = count_list evs Call_fork + (n - i)"
  using assms
proof (induction os cmds n i pfd pids evs rule: spawn_loop.induct)
  case (1 os commands num_commands i prev_fd pids evs)
  show ?case
  proof (cases "i < num_commands")
    case False
    then show ?thesis by (simp add: spawn_loop.simps [of _ _ num_commands i])
  next
    case True
    with "1.prems"(1) [of i] have pos: "\<not> fork_result os i < 0" "fork_result os i \<noteq> 0" by auto
    from "1.prems"(2) [of i]
    obtain pipefd where Some: "(if i < num_commands - 1 then pipe_result os i else Some (- 1, - 1)) =
        Some pipefd"
      by (cases "i < num_commands - 1") auto
    let ?evs2 = "(evs @ (if i < num_commands - 1 then [Call_pipe] else []) @ [Call_fork]) @
       (if prev_fd \<noteq> - 1 then [Call_close prev_fd] else []) @
       (if i < num_commands - 1 then [Call_close (snd pipefd)] else [])"
    let ?rest = "spawn_loop os commands num_commands (Suc i)
      (if i < num_commands - 1 then fst pipefd else prev_fd) (pids @ [fork_result os i]) ?evs2"
    from True Some pos
    have eq: "spawn_loop os commands num_commands i prev_fd pids evs = ?rest"
      by (simp add: spawn_loop.simps [of _ _ num_commands i] Let_def)
    have "\<exists>p evs'. ?rest =
        Inr (p, (pids @ [fork_result os i]) @ map (fork_result os) [Suc i..<num_commands], evs') \<and>
        count_list evs' Call_fork = count_list ?evs2 Call_fork + (num_commands - Suc i)"
      using "1.prems" by (intro "1.IH" [OF True refl Some refl refl pos]) auto
    then obtain p evs' where r: "?rest =
        Inr (p, (pids @ [fork_result os i]) @ map (fork_result os) [Suc i..<num_commands], evs')"
      "count_list evs' Call_fork = count_list ?evs2 Call_fork + (num_commands - Suc i)"
      by blast
    from True have "[i..<num_commands] = i # [Suc i..<num_commands]"
      by (simp add: upt_conv_Cons)
    then have pids: "(pids @ [fork_result os i]) @ map (fork_result os) [Suc i..<num_commands] =
        pids @ map (fork_result os) [i..<num_commands]"
      by simp
    have cnt: "count_list ?evs2 Call_fork + (num_commands - Suc i) =
        count_list evs Call_fork + (num_commands - i)"
      using True by simp
    from eq r pids cnt show ?thesis by metis
  qed
qed

lemma spawn_loop_child_at:
  assumes "i \<le> k" and "k < n"
    and "\<And>j. i \<le> j \<Longrightarrow> j < k \<Longrightarrow> 0 < fork_result os j"
    and "\<And>j. i \<le> j \<Longrightarrow> j \<le> k \<Longrightarrow> j < n - 1 \<Longrightarrow> pipe_result os j \<noteq> None"
    and "fork_result os k = 0"
  shows "\<exists>p pf evs'. spawn_loop os cmds n i pfd pids evs =
            Inl (fst (child_process os (cmds ! k) (k < n - 1) p pf), evs')"
  using assms
proof (induction os cmds n i pfd pids evs rule: spawn_loop.induct)
  case (1 os commands num_commands i prev_fd pids evs)
  from "1.prems"(1,2) have True: "i < num_commands" by simp
  from "1.prems"(4) [of i] "1.prems"(1)
  obtain pipefd where Some: "(if i < num_commands - 1 then pipe_result os i else Some (- 1, - 1)) =
      Some pipefd"
    by (cases "i < num_commands - 1") auto
  show ?case
  proof (cases "i = k")
    case here: True
    with "1.prems"(5) have fz: "fork_result os i = 0" by simp
    with True Some
    have "spawn_loop os commands num_commands i prev_fd pids evs =
      Inl (fst (child_process os (commands ! i) (i < num_commands - 1) prev_fd pipefd),
           (evs @ (if i < num_commands - 1 then [Call_pipe] else []) @ [Call_fork]) @
           snd (child_process os (commands ! i) (i < num_commands - 1) prev_fd pipefd))"
      by (simp add: spawn_loop.simps [of _ _ num_commands i] Let_def split: prod.splits)
    with here show ?thesis by blast
  next
    case False
    with "1.prems"(1) have lt: "i < k" by simp
    with "1.prems"(3) [of i] have pos: "\<not> fork_result os i < 0" "fork_result os i \<noteq> 0" by auto
    let ?evs2 = "(evs @ (if i < num_commands - 1 then [Call_pipe] else []) @ [Call_fork]) @
       (if prev_fd \<noteq> - 1 then [Call_close prev_fd] else []) @
       (if i < num_commands - 1 then [Call_close (snd pipefd)] else [])"
    let ?rest = "spawn_loop os commands num_commands (Suc i)
      (if i < num_commands - 1 then fst pipefd else prev_fd) (pids @ [fork_result os i]) ?evs2"
    from True Some pos
    have eq: "spawn_loop os commands num_commands i prev_fd pids evs = ?rest"
      by (simp add: spawn_loop.simps [of _ _ num_commands i] Let_def)
    have "\<exists>p pf evs'. ?rest =
        Inl (fst (child_process os (commands ! k) (k < num_commands - 1) p pf), evs')"
      using "1.prems" lt by (intro "1.IH" [OF True refl Some refl refl pos]) auto
    with eq show ?thesis by simp
  qed
qed

lemma run_external_cwd:
  "fst (snd (run_external os commands n cwd)) = cwd"
  by (auto simp: run_external_def Let_def split: sum.splits prod.splits)

lemma run_external_no_chdir:
  "Call_chdir d \<notin> set (snd (snd (run_external os commands n cwd)))"
  using spawn_loop_events [of os commands "nat n" 0 "- 1" "[]" "[]"]
  by (auto simp: run_external_def Let_def split: sum.splits prod.splits)

lemma run_external_forks:
  assumes "0 < n" and "1 < n \<Longrightarrow> pipe_result os 0 \<noteq> None"
  shows "Call_fork \<in> set (snd (snd (run_external os commands n cwd)))"
proof -
  let ?n = "nat n"
  from assms(1) have True: "0 < ?n" by simp
  from assms(2)
  obtain pipefd where Some: "(if 0 < ?n - 1 then pipe_result os 0 else Some (- 1, - 1)) =
      Some pipefd"
    by (cases "0 < ?n - 1") auto
  let ?evs1 = "(if 0 < ?n - 1 then [Call_pipe] else []) @ [Call_fork]"
  let ?s = "spawn_loop os commands ?n 0 (- 1) [] []"
  have "\<exists>new. snd (snd (case ?s of Inl (out, evs') \<Rightarrow> (0, [], evs') | Inr x \<Rightarrow> x)) = ?evs1 @ new"
  proof -
    consider (neg) "fork_result os 0 < 0" | (zero) "fork_result os 0 = 0"
      | (pos) "\<not> fork_result os 0 < 0" "fork_result os 0 \<noteq> 0"
      by linarith
    then show ?thesis
    proof cases
      case neg
      with True Some show ?thesis
        by (simp add: spawn_loop.simps [of _ _ ?n 0] Let_def)
    next
      case zero
      with True Some show ?thesis
        by (auto simp: spawn_loop.simps [of _ _ ?n 0] Let_def split: prod.splits)
    next
      case pos
      with True Some have "?s = spawn_loop os commands ?n (Suc 0)
          (if 0 < ?n - 1 then fst pipefd else - 1) ([] @ [fork_result os 0])
          (([] @ ?evs1) @ (if (- 1 :: int) \<noteq> - 1 then [Call_close (- 1)] else []) @
            (if 0 < ?n - 1 then [Call_close (snd pipefd)] else []))"
        by (simp add: spawn_loop.simps [of _ _ ?n 0] Let_def)
      with spawn_loop_events [of os commands ?n "Suc 0"
          "if 0 < ?n - 1 then fst pipefd else - 1" "[] @ [fork_result os 0]"
          "([] @ ?evs1) @ (if (- 1 :: int) \<noteq> - 1 then [Call_close (- 1)] else []) @
            (if 0 < ?n - 1 then [Call_close (snd pipefd)] else [])"]
      show ?thesis by auto
    qed
  qed
  then obtain new where
    "snd (snd (case ?s of Inl (out, evs') \<Rightarrow> (0, [], evs') | Inr x \<Rightarrow> x)) = ?evs1 @ new"
    by blast
  then show ?thesis
    by (auto simp: run_external_def Let_def split: sum.splits prod.splits)
qed

lemma run_external_all:
  assumes "0 < n"
    and "\<And>j. j < nat n \<Longrightarrow> 0 < fork_result os j"
    and "\<And>j. j < nat n - 1 \<Longrightarrow> pipe_result os j \<noteq> None"
  shows "fst (run_external os commands n cwd) = Returns 1"
    and "count_list (snd (snd (run_external os commands n cwd))) Call_fork = nat n"
    and "background (commands ! (nat n - 1)) \<Longrightarrow>
           last (snd (snd (run_external os commands n cwd))) =
             Print_job (Some (fork_result os (nat n - 1)))"
    and "\<not> background (commands ! (nat n - 1)) \<Longrightarrow>
           \<exists>evs. snd (snd (run_external os commands n cwd)) =
             evs @ map Call_waitpid (map (fork_result os) [0..<nat n])"
proof -
  from spawn_loop_all [of 0 "nat n" os commands "- 1" "[]" "[]"] assms(2,3)
  obtain p evs' where s: "spawn_loop os commands (nat n) 0 (- 1) [] [] =
      Inr (p, map (fork_result os) [0..<nat n], evs')"
    and c: "count_list evs' Call_fork = nat n"
    by auto
  from s show "fst (run_external os commands n cwd) = Returns 1"
    by (simp add: run_external_def Let_def)
  have w: "count_list (map (Call_waitpid \<circ> g) ps) Call_fork = 0" for g and ps :: "nat list"
    by (induction ps) auto
  from s c w show "count_list (snd (snd (run_external os commands n cwd))) Call_fork = nat n"
    by (simp add: run_external_def Let_def)
  from assms(1) have ne: "[0..<nat n] \<noteq> []" by simp
  then have l: "last (map (fork_result os) [0..<nat n]) = fork_result os (nat n - 1)"
    by (simp add: last_map)
  from s ne l show "last (snd (snd (run_external os commands n cwd))) =
      Print_job (Some (fork_result os (nat n - 1)))"
    if "background (commands ! (nat n - 1))"
    using that by (simp add: run_external_def Let_def)
  from s show "\<exists>evs. snd (snd (run_external os commands n cwd)) =
      evs @ map Call_waitpid (map (fork_result os) [0..<nat n])"
    if "\<not> background (commands ! (nat n - 1))"
    using that by (simp add: run_external_def Let_def)
qed

lemma run_external_child:
  assumes "k < nat n"
    and "\<And>j. j < k \<Longrightarrow> 0 < fork_result os j"
    and "\<And>j. j \<le> k \<Longrightarrow> j < nat n - 1 \<Longrightarrow> pipe_result os j \<noteq> None"
    and "fork_result os k = 0"
    and "fst (redirect_io os (commands ! k)) = 0"
    and "args (commands ! k) = name # rest"
    and "execvp_found os name"
  shows "fst (run_external os commands n cwd) = Child_runs name (name # rest)"
proof -
  from spawn_loop_child_at [of 0 k "nat n" os commands "- 1" "[]" "[]"] assms(1-4)
  obtain p pf evs' where "spawn_loop os commands (nat n) 0 (- 1) [] [] =
      Inl (fst (child_process os (commands ! k) (k < nat n - 1) p pf), evs')"
    by auto
  with child_process_runs [OF assms(5-7)] show ?thesis
    by (simp add: run_external_def)
qed

section \<open>Claims about the parser\<close>

text \<open>
  C1. Every input line that parses without error and consists of \<open>N\<close> pipe-separated
  segments (one more than the number of \<open>|\<close> characters) has \<open>1 \<le> N \<le> MAX_PIPE\<close>;
  \<open>parse_command\<close> sets the stage count to \<open>N\<close>, hands over exactly \<open>N\<close> stages, and
  each stage has at least one argument. The caller's array has room for \<open>MAX_PIPE\<close>
  stages, as the array of \<open>main\<close> has.
\<close>

theorem C1_stage_count:
  assumes "MAX_PIPE \<le> length commands"
    and "ret (parse_command (Some line) commands n0) = 0"
  shows "length (pipe_segments line) = Suc (count_list line (CHR ''|'')) \<and>
    1 \<le> length (pipe_segments line) \<and> length (pipe_segments line) \<le> MAX_PIPE \<and>
    num_out (parse_command (Some line) commands n0) = int (length (pipe_segments line)) \<and>
    length (pipeline (parse_command (Some line) commands n0)) = length (pipe_segments line) \<and>
    (\<forall>c \<in> set (pipeline (parse_command (Some line) commands n0)). args c \<noteq> [])"
proof -
  let ?N = "length (pipe_segments line)"
  from assms(1) have "?N \<le> MAX_PIPE \<longrightarrow> ?N \<le> length commands" by simp
  then show ?thesis
  proof (cases rule: parse_command_cases [of line commands n0])
    case (failed e cmds')
    with assms(2) show ?thesis by (simp add: parse_failed_def)
  next
    case (ok cmds')
    from split_pipes_line [OF ok(2)] have bound: "?N \<le> MAX_PIPE" by simp
    have len: "length cmds' = length commands"
      using parse_segments_length [of ?N 0 "pipe_segments line" commands] ok(3) by simp
    with bound assms(1) have room: "?N \<le> length cmds'" by simp
    have pl: "pipeline (parse_command (Some line) commands n0) = take ?N cmds'"
      by (simp add: ok(1) pipeline_def)
    have "args c \<noteq> []" if "c \<in> set (take ?N cmds')" for c
    proof -
      from that obtain j where j: "j < ?N" "c = cmds' ! j"
        using room by (auto simp: in_set_conv_nth)
      from bound assms(1) have "0 + ?N \<le> length commands" by simp
      from parse_segments_sound [OF ok(3) this j(1)] j(2) show ?thesis by simp
    qed
    moreover have "1 \<le> ?N" by (simp add: pipe_segments_def length_split_at)
    ultimately show ?thesis
      using bound room pl by (simp add: ok(1) pipe_segments_count)
  qed
qed

theorem C1_stage_count_witness:
  "ret (parse_command (Some ''ls -la | grep foo'') (replicate 16 empty_command) 7) = 0 \<and>
   num_out (parse_command (Some ''ls -la | grep foo'') (replicate 16 empty_command) 7) = 2 \<and>
   length (pipeline (parse_command (Some ''ls -la | grep foo'') (replicate 16 empty_command) 7)) = 2 \<and>
   list_all (\<lambda>c. args c \<noteq> [])
     (pipeline (parse_command (Some ''ls -la | grep foo'') (replicate 16 empty_command) 7))"
proof -
  have h1: "MAX_PIPE \<le> length (replicate 16 empty_command)"
    by (simp add: MAX_PIPE_def)
  have h2: "ret (parse_command (Some ''ls -la | grep foo'') (replicate 16 empty_command) 7) = 0"
    by code_simp
  have n: "Suc (count_list ''ls -la | grep foo'' (CHR ''|'')) = 2"
    by simp
  from C1_stage_count [OF h1 h2] h2 n show ?thesis
    by (simp add: list_all_iff)
qed

text \<open>
  C2. In a pipeline of more than one stage that parses, no stage but the first has an
  input source and no stage but the last has an output sink. The diagnostics of the
  validation loop carry the 1-based index of a segment that declares the misplaced
  redirection, and print it in decimal. A line whose segments are all well formed on
  their own, but with a misplaced redirection in a pipeline of several stages, gets
  one of these two diagnostics. With either of them the round of \<open>main\<close> prints the
  message and goes on to the next line without any other system call.
\<close>

theorem C2_redirection_placement:
  assumes "MAX_PIPE \<le> length (main_commands sh)"
    and "r = parse_command (Some line) (main_commands sh) (main_num_commands sh)"
    and "segs = pipe_segments line"
  shows "(ret r = 0 \<and> 1 < length segs \<longrightarrow>
            (\<forall>i < length segs.
               (i \<noteq> 0 \<longrightarrow> input_file (pipeline r ! i) = None) \<and>
               (i \<noteq> length segs - 1 \<longrightarrow> output_file (pipeline r ! i) = None))) \<and>
         (\<forall>k. diag r = Some (Input_not_allowed k) \<longrightarrow>
            ret r = - 1 \<and> 2 \<le> k \<and> k \<le> length segs \<and>
            in_operands (segment_items (segs ! (k - 1))) \<noteq> []) \<and>
         (\<forall>k. diag r = Some (Output_not_allowed k) \<longrightarrow>
            ret r = - 1 \<and> 1 \<le> k \<and> k < length segs \<and>
            out_operands (segment_items (segs ! (k - 1))) \<noteq> []) \<and>
         (length segs \<le> MAX_PIPE \<and> 1 < length segs \<and>
          (\<forall>i < length segs. wellformed_stage (i = length segs - 1) (segment_items (segs ! i))) \<and>
          (\<exists>i < length segs.
             (i \<noteq> 0 \<and> in_operands (segment_items (segs ! i)) \<noteq> []) \<or>
             (i \<noteq> length segs - 1 \<and> out_operands (segment_items (segs ! i)) \<noteq> [])) \<longrightarrow>
            (\<exists>k. diag r = Some (Input_not_allowed k) \<or> diag r = Some (Output_not_allowed k))) \<and>
         (\<forall>k. error_message (Input_not_allowed k) =
            ''input redirection not allowed for command '' @ show_nat k @ '' in pipeline'' @
            [CHR 0x0A] \<and>
          error_message (Output_not_allowed k) =
            ''output redirection not allowed for command '' @ show_nat k @ '' in pipeline'' @
            [CHR 0x0A]) \<and>
         (\<forall>e bytes. diag r = Some e \<and> validation_error e \<and> line \<noteq> [] \<and>
            trim_whitespace (c_string (if bytes \<noteq> [] \<and> last bytes = CHR 0x0A
              then butlast bytes else bytes)) = line \<longrightarrow>
            main_step os sh (Some bytes) =
              (Continue_loop, sh\<lparr>main_commands := commands_out r\<rparr>,
               (if isatty_stdin os then [Write_stdout ''$ ''] else []) @
                 [Write_stderr (error_message e)]))"
proof -
  let ?N = "length (pipe_segments line)"
  let ?segs = "pipe_segments line"
  let ?c = "main_commands sh"
  let ?n = "main_num_commands sh"
  note r = assms(2) and segs = assms(3)
  from assms(1) have room: "?N \<le> MAX_PIPE \<longrightarrow> ?N \<le> length ?c" by simp
  have placed: "(i \<noteq> 0 \<longrightarrow> input_file (pipeline r ! i) = None) \<and>
      (i \<noteq> ?N - 1 \<longrightarrow> output_file (pipeline r ! i) = None)"
    if ok: "ret r = 0" and many: "1 < ?N" and i: "i < ?N" for i
  proof -
    from ok r have ok': "ret (parse_command (Some line) ?c ?n) = 0" by simp
    note snd = parse_command_sound [OF assms(1) ok']
    from snd(1) i many have w: "wellformed_stage (i = ?N - 1) (segment_items (?segs ! i))"
      "i \<noteq> 0 \<longrightarrow> in_operands (segment_items (?segs ! i)) = []"
      "i \<noteq> ?N - 1 \<longrightarrow> out_operands (segment_items (?segs ! i)) = []"
      unfolding wellformed_line_iff by blast+
    from snd(2) i r have "pipeline r ! i = described_stage (segment_items (?segs ! i))"
      by simp
    with w(2,3) show ?thesis by (auto simp: described_stage_def)
  qed
  have inp: "ret r = - 1 \<and> 2 \<le> k \<and> k \<le> ?N \<and> in_operands (segment_items (?segs ! (k - 1))) \<noteq> []"
    if d: "diag r = Some (Input_not_allowed k)" for k
    using room
  proof (cases rule: parse_command_phases [of line ?c ?n])
    case (split_failed e)
    with d r have "e = Input_not_allowed k" by (simp add: parse_failed_def)
    with split_pipes_error [OF split_failed(2)] show ?thesis by (simp add: validation_error_def)
  next
    case (segment_failed e cmds')
    with d r have "e = Input_not_allowed k" by (simp add: parse_failed_def)
    with parse_segments_error [of ?N 0 ?segs ?c e] segment_failed(3) show ?thesis
      by (simp add: validation_error_def)
  next
    case (validation_failed e cmds')
    with d r have e: "e = Input_not_allowed k" by (simp add: parse_failed_def)
    from split_pipes_line [OF validation_failed(2)] assms(1)
    have fits: "?N \<le> length ?c" by simp
    have len: "length cmds' = length ?c"
      using parse_segments_length [of ?N 0 ?segs ?c] validation_failed(3) by simp
    from validate_error [OF validation_failed(5)] e fits len
    obtain j where j: "j < ?N" "k = j + 1" "j \<noteq> 0" "input_file (cmds' ! j) \<noteq> None"
      by auto
    from parsed_stage(1) [OF validation_failed(3) fits j(1)] j(4)
    have "in_operands (segment_items (?segs ! j)) \<noteq> []"
      by (auto simp: described_stage_def)
    with j validation_failed(1) r show ?thesis by (simp add: parse_failed_def)
  next
    case (ok cmds')
    with d r show ?thesis by simp
  qed
  have outp: "ret r = - 1 \<and> 1 \<le> k \<and> k < ?N \<and>
      out_operands (segment_items (?segs ! (k - 1))) \<noteq> []"
    if d: "diag r = Some (Output_not_allowed k)" for k
    using room
  proof (cases rule: parse_command_phases [of line ?c ?n])
    case (split_failed e)
    with d r have "e = Output_not_allowed k" by (simp add: parse_failed_def)
    with split_pipes_error [OF split_failed(2)] show ?thesis by (simp add: validation_error_def)
  next
    case (segment_failed e cmds')
    with d r have "e = Output_not_allowed k" by (simp add: parse_failed_def)
    with parse_segments_error [of ?N 0 ?segs ?c e] segment_failed(3) show ?thesis
      by (simp add: validation_error_def)
  next
    case (validation_failed e cmds')
    with d r have e: "e = Output_not_allowed k" by (simp add: parse_failed_def)
    from split_pipes_line [OF validation_failed(2)] assms(1)
    have fits: "?N \<le> length ?c" by simp
    have len: "length cmds' = length ?c"
      using parse_segments_length [of ?N 0 ?segs ?c] validation_failed(3) by simp
    from validate_error [OF validation_failed(5)] e fits len
    obtain j where j: "j < ?N" "k = j + 1" "j \<noteq> ?N - 1" "output_file (cmds' ! j) \<noteq> None"
      by auto
    from parsed_stage(1) [OF validation_failed(3) fits j(1)] j(4)
    have "out_operands (segment_items (?segs ! j)) \<noteq> []"
      by (auto simp: described_stage_def)
    moreover from j(1,3) have "j + 1 < ?N" by simp
    ultimately show ?thesis using j validation_failed(1) r by (simp add: parse_failed_def)
  next
    case (ok cmds')
    with d r show ?thesis by simp
  qed
  have rejected: "\<exists>k. diag r = Some (Input_not_allowed k) \<or> diag r = Some (Output_not_allowed k)"
    if bound: "?N \<le> MAX_PIPE" and many: "1 < ?N"
      and st: "\<forall>i < ?N. wellformed_stage (i = ?N - 1) (segment_items (?segs ! i))"
      and bad: "\<exists>i < ?N. (i \<noteq> 0 \<and> in_operands (segment_items (?segs ! i)) \<noteq> []) \<or>
             (i \<noteq> ?N - 1 \<and> out_operands (segment_items (?segs ! i)) \<noteq> [])"
    using room
  proof (cases rule: parse_command_phases [of line ?c ?n])
    case (split_failed e)
    with stages_ok_split [OF bound] st show ?thesis by simp
  next
    case (segment_failed e cmds')
    with stages_ok_segments [of line ?c] st show ?thesis by simp
  next
    case (validation_failed e cmds')
    from validate_error [OF validation_failed(5)] validation_failed(1) r show ?thesis
      by (auto simp: parse_failed_def)
  next
    case (ok cmds')
    then have "ret (parse_command (Some line) ?c ?n) = 0" by simp
    from parse_command_sound(1) [OF assms(1) this] many bad show ?thesis
      unfolding wellformed_line_iff by blast
  qed
  have quiet: "main_step os sh (Some bytes) =
      (Continue_loop, sh\<lparr>main_commands := commands_out r\<rparr>,
       (if isatty_stdin os then [Write_stdout ''$ ''] else []) @ [Write_stderr (error_message e)])"
    if "diag r = Some e" "line \<noteq> []"
      "trim_whitespace (c_string (if bytes \<noteq> [] \<and> last bytes = CHR 0x0A
         then butlast bytes else bytes)) = line" for e bytes
  proof -
    from that(1) r parse_command_ret(4) [of line ?c ?n]
    have "ret (parse_command (Some line) ?c ?n) \<noteq> 0" by auto
    from main_step_syntax_error [OF that(3) that(2) this] that(1) r show ?thesis by simp
  qed
  from placed inp outp rejected quiet show ?thesis
    unfolding segs by (simp only: error_message.simps) blast
qed

theorem C2_redirection_placement_witness:
  "diag (parse_command (Some ''cmd1 | cmd2 < in.txt'') (main_commands example_shell)
      (main_num_commands example_shell)) = Some (Input_not_allowed 2) \<and>
   ret (parse_command (Some ''cmd1 | cmd2 < in.txt'') (main_commands example_shell)
      (main_num_commands example_shell)) = - 1 \<and>
   in_operands (segment_items (pipe_segments ''cmd1 | cmd2 < in.txt'' ! (2 - 1))) \<noteq> [] \<and>
   main_step example_os example_shell (Some (''cmd1 | cmd2 < in.txt'' @ [CHR 0x0A])) =
     (Continue_loop,
      example_shell\<lparr>main_commands :=
        commands_out (parse_command (Some ''cmd1 | cmd2 < in.txt'') (main_commands example_shell)
          (main_num_commands example_shell))\<rparr>,
      [Write_stderr (''input redirection not allowed for command 2 in pipeline'' @ [CHR 0x0A])])"
proof -
  let ?line = "''cmd1 | cmd2 < in.txt''"
  let ?r = "parse_command (Some ?line) (main_commands example_shell)
      (main_num_commands example_shell)"
  have room: "MAX_PIPE \<le> length (main_commands example_shell)"
    by (simp add: example_shell_def MAX_PIPE_def)
  have d: "diag ?r = Some (Input_not_allowed 2)" by code_simp
  have t: "trim_whitespace (c_string (if ?line @ [CHR 0x0A] \<noteq> [] \<and>
      last (?line @ [CHR 0x0A]) = CHR 0x0A then butlast (?line @ [CHR 0x0A])
      else ?line @ [CHR 0x0A])) = ?line"
    by code_simp
  have v: "validation_error (Input_not_allowed 2)"
    by (simp add: validation_error_def)
  have m: "error_message (Input_not_allowed 2) =
      ''input redirection not allowed for command 2 in pipeline'' @ [CHR 0x0A]"
    by code_simp
  have tty: "\<not> isatty_stdin example_os" by (simp add: example_os_def)
  note inst = C2_redirection_placement [where sh = example_shell
      and line = "''cmd1 | cmd2 < in.txt''" and os = example_os, OF room refl refl]
  from inst d have "ret ?r = - 1"
    and "in_operands (segment_items (pipe_segments ?line ! (2 - 1))) \<noteq> []"
    by blast+
  moreover from inst d v t have "main_step example_os example_shell (Some (?line @ [CHR 0x0A])) =
     (Continue_loop, example_shell\<lparr>main_commands := commands_out ?r\<rparr>,
      (if isatty_stdin example_os then [Write_stdout ''$ ''] else []) @
        [Write_stderr (error_message (Input_not_allowed 2))])"
    by blast
  ultimately show ?thesis using d m tty by simp
qed

text \<open>
  C8. \<open>parse_command\<close> returns 0 or -1. When it returns 0 nothing was printed, the
  line is well formed in the sense of the specification, the stage count is the
  number of segments and the stages handed over are the ones the specification
  describes. When it returns -1 a diagnostic was printed and the caller's stage count
  is left as it was; the round of \<open>main\<close> then prints nothing but the prompt and the
  diagnostic, makes no other system call (so spawns no process), leaves status and
  working directory alone and continues the loop.
\<close>

theorem C8_error_or_pipeline:
  assumes "MAX_PIPE \<le> length (main_commands sh)"
    and "r = parse_command (Some line) (main_commands sh) (main_num_commands sh)"
    and "trim_whitespace (c_string (if bytes \<noteq> [] \<and> last bytes = CHR 0x0A
           then butlast bytes else bytes)) = line"
    and "line \<noteq> []"
  shows "(ret r = 0 \<or> ret r = - 1) \<and>
         (ret r = 0 \<longrightarrow>
            diag r = None \<and> wellformed_line line \<and>
            num_out r = int (length (pipe_segments line)) \<and>
            pipeline r =
              map (\<lambda>segment. described_stage (segment_items segment)) (pipe_segments line)) \<and>
         (ret r \<noteq> 0 \<longrightarrow>
            num_out r = main_num_commands sh \<and>
            (\<exists>e. diag r = Some e \<and>
               main_step os sh (Some bytes) =
                 (Continue_loop, sh\<lparr>main_commands := commands_out r\<rparr>,
                  (if isatty_stdin os then [Write_stdout ''$ ''] else []) @
                    [Write_stderr (error_message e)])) \<and>
            Call_fork \<notin> set (snd (snd (main_step os sh (Some bytes)))) \<and>
            main_status (fst (snd (main_step os sh (Some bytes)))) = main_status sh \<and>
            main_cwd (fst (snd (main_step os sh (Some bytes)))) = main_cwd sh)"
proof (intro conjI impI)
  show "ret r = 0 \<or> ret r = - 1"
    unfolding assms(2) by (rule parse_command_ret(1))
next
  assume "ret r = 0"
  then have ok: "ret (parse_command (Some line) (main_commands sh) (main_num_commands sh)) = 0"
    by (simp add: assms(2))
  note s = parse_command_sound [OF assms(1) ok]
  from s(4) show "diag r = None" by (simp add: assms(2))
  from s(1) show "wellformed_line line" .
  from s(3) show "num_out r = int (length (pipe_segments line))" by (simp add: assms(2))
  from s(2) show "pipeline r =
      map (\<lambda>segment. described_stage (segment_items segment)) (pipe_segments line)"
    by (simp add: assms(2))
next
  assume "ret r \<noteq> 0"
  then have bad: "ret (parse_command (Some line) (main_commands sh) (main_num_commands sh)) \<noteq> 0"
    by (simp add: assms(2))
  from parse_command_ret(2) [OF bad] show "num_out r = main_num_commands sh"
    by (simp add: assms(2))
  from parse_command_ret(3) [OF bad] obtain e where e: "diag r = Some e"
    by (auto simp: assms(2))
  then have e': "diag (parse_command (Some line) (main_commands sh) (main_num_commands sh)) = Some e"
    by (simp add: assms(2))
  note ms = main_step_syntax_error [OF assms(3) assms(4) bad e', of os]
  from e ms show "\<exists>e. diag r = Some e \<and>
       main_step os sh (Some bytes) =
         (Continue_loop, sh\<lparr>main_commands := commands_out r\<rparr>,
          (if isatty_stdin os then [Write_stdout ''$ ''] else []) @
            [Write_stderr (error_message e)])"
    by (auto simp: assms(2))
  from ms show "Call_fork \<notin> set (snd (snd (main_step os sh (Some bytes))))" by simp
  from ms show "main_status (fst (snd (main_step os sh (Some bytes)))) = main_status sh" by simp
  from ms show "main_cwd (fst (snd (main_step os sh (Some bytes)))) = main_cwd sh" by simp
qed

theorem C8_error_or_pipeline_witness:
  "ret (parse_command (Some ''a > b > c'') (main_commands example_shell)
      (main_num_commands example_shell)) = - 1 \<and>
   num_out (parse_command (Some ''a > b > c'') (main_commands example_shell)
      (main_num_commands example_shell)) = main_num_commands example_shell \<and>
   Call_fork \<notin> set (snd (snd (main_step example_os example_shell
      (Some (''a > b > c'' @ [CHR 0x0A]))))) \<and>
   fst (main_step example_os example_shell (Some (''a > b > c'' @ [CHR 0x0A]))) = Continue_loop \<and>
   ret (parse_command (Some ''echo hi > out.txt'') (main_commands example_shell)
      (main_num_commands example_shell)) = 0 \<and>
   pipeline (parse_command (Some ''echo hi > out.txt'') (main_commands example_shell)
      (main_num_commands example_shell)) =
     [\<lparr>args = [''echo'', ''hi''], input_file = None, output_file = Some ''out.txt'',
       background = False\<rparr>]"
proof -
  let ?bad = "''a > b > c''"
  let ?good = "''echo hi > out.txt''"
  let ?c = "main_commands example_shell"
  let ?n = "main_num_commands example_shell"
  have room: "MAX_PIPE \<le> length ?c"
    by (simp add: example_shell_def MAX_PIPE_def)
  have t1: "trim_whitespace (c_string (if ?bad @ [CHR 0x0A] \<noteq> [] \<and>
      last (?bad @ [CHR 0x0A]) = CHR 0x0A then butlast (?bad @ [CHR 0x0A])
      else ?bad @ [CHR 0x0A])) = ?bad"
    by code_simp
  have t2: "trim_whitespace (c_string (if ?good @ [CHR 0x0A] \<noteq> [] \<and>
      last (?good @ [CHR 0x0A]) = CHR 0x0A then butlast (?good @ [CHR 0x0A])
      else ?good @ [CHR 0x0A])) = ?good"
    by code_simp
  have r1: "ret (parse_command (Some ?bad) ?c ?n) = - 1" by code_simp
  have r2: "ret (parse_command (Some ?good) ?c ?n) = 0" by code_simp
  have d: "map (\<lambda>segment. described_stage (segment_items segment)) (pipe_segments ?good) =
     [\<lparr>args = [''echo'', ''hi''], input_file = None, output_file = Some ''out.txt'',
       background = False\<rparr>]"
    by code_simp
  note bad = C8_error_or_pipeline [where os = example_os, OF room refl t1]
  note good = C8_error_or_pipeline [where os = example_os, OF room refl t2]
  have nz: "ret (parse_command (Some ?bad) ?c ?n) \<noteq> 0" using r1 by simp
  from bad nz have "num_out (parse_command (Some ?bad) ?c ?n) = ?n"
    and "Call_fork \<notin> set (snd (snd (main_step example_os example_shell
      (Some (?bad @ [CHR 0x0A])))))"
    by blast+
  moreover from bad nz obtain e where
    "main_step example_os example_shell (Some (?bad @ [CHR 0x0A])) =
       (Continue_loop,
        example_shell\<lparr>main_commands := commands_out (parse_command (Some ?bad) ?c ?n)\<rparr>,
        (if isatty_stdin example_os then [Write_stdout ''$ ''] else []) @
          [Write_stderr (error_message e)])"
    by blast
  then have "fst (main_step example_os example_shell (Some (?bad @ [CHR 0x0A]))) = Continue_loop"
    by simp
  moreover from good r2 have "pipeline (parse_command (Some ?good) ?c ?n) =
      map (\<lambda>segment. described_stage (segment_items segment)) (pipe_segments ?good)"
    by blast
  with d have "pipeline (parse_command (Some ?good) ?c ?n) =
     [\<lparr>args = [''echo'', ''hi''], input_file = None, output_file = Some ''out.txt'',
       background = False\<rparr>]"
    by simp
  ultimately show ?thesis using r1 r2 by simp
qed

text \<open>
  C9. The outcome of \<open>parse_command\<close> is a function of the line text alone: two runs
  on the same text, whatever the caller's array and stage count held before, return
  the same value and print the same diagnostic, and when they succeed they hand over
  the same number of stages with the same arguments, input source, output sink and
  background flag in every stage.
\<close>

theorem C9_parse_function_of_text:
  assumes "MAX_PIPE \<le> length commands1" and "MAX_PIPE \<le> length commands2"
    and "r1 = parse_command (Some line) commands1 n1"
    and "r2 = parse_command (Some line) commands2 n2"
  shows "ret r1 = ret r2 \<and> diag r1 = diag r2 \<and>
         (ret r1 = 0 \<longrightarrow>
            num_out r1 = num_out r2 \<and> length (pipeline r1) = length (pipeline r2) \<and>
            pipeline r1 = pipeline r2 \<and>
            map args (pipeline r1) = map args (pipeline r2) \<and>
            map input_file (pipeline r1) = map input_file (pipeline r2) \<and>
            map output_file (pipeline r1) = map output_file (pipeline r2) \<and>
            map background (pipeline r1) = map background (pipeline r2))"
  using parse_command_indep [OF assms(1,2), of "Some line" n1 n2]
  unfolding assms(3,4) by simp

theorem C9_parse_function_of_text_witness:
  "ret (parse_command (Some ''sort < in | uniq > out &'') (replicate 16 empty_command) 0) = 0 \<and>
   pipeline (parse_command (Some ''sort < in | uniq > out &'') (replicate 16 empty_command) 0) =
   pipeline (parse_command (Some ''sort < in | uniq > out &'')
     (replicate 20 ((stage [''stale''])\<lparr>background := True\<rparr>)) 3)"
proof -
  have h1: "MAX_PIPE \<le> length (replicate 16 empty_command)" by (simp add: MAX_PIPE_def)
  have h2: "MAX_PIPE \<le> length (replicate 20 ((stage [''stale''])\<lparr>background := True\<rparr>))"
    by (simp add: MAX_PIPE_def)
  have ok: "ret (parse_command (Some ''sort < in | uniq > out &'') (replicate 16 empty_command) 0) = 0"
    by code_simp
  from C9_parse_function_of_text [OF h1 h2 refl refl, of "''sort < in | uniq > out &''" 0 3] ok
  show ?thesis by simp
qed

text \<open>
  C4, as the code has it. In \<open>a < & | b\<close> and in \<open>a > & b\<close> the standalone \<open>&\<close> is
  the token that follows a redirection operator, so it is stored as that operator's
  file path. Both lines parse, although the first has its \<open>&\<close> in a segment that is
  not the final one and the second has \<open>b\<close> after its \<open>&\<close>; no stage is marked
  background.
\<close>

theorem C4_amp_operand_counterexample:
  "ret (parse_command (Some ''a < & | b'') (replicate 16 empty_command) 0) = 0 \<and>
   length (pipe_segments ''a < & | b'') = 2 \<and>
   tokens (trim_whitespace (pipe_segments ''a < & | b'' ! 0)) = [''a'', ''<'', ''&''] \<and>
   pipeline (parse_command (Some ''a < & | b'') (replicate 16 empty_command) 0) =
     [\<lparr>args = [''a''], input_file = Some ''&'', output_file = None, background = False\<rparr>,
      \<lparr>args = [''b''], input_file = None, output_file = None, background = False\<rparr>] \<and>
   ret (parse_command (Some ''a > & b'') (replicate 16 empty_command) 0) = 0 \<and>
   tokens (trim_whitespace (pipe_segments ''a > & b'' ! 0)) = [''a'', ''>'', ''&'', ''b''] \<and>
   pipeline (parse_command (Some ''a > & b'') (replicate 16 empty_command) 0) =
     [\<lparr>args = [''a'', ''b''], input_file = None, output_file = Some ''&'', background = False\<rparr>]"
  by code_simp

text \<open>
  C4, amended. The tokens of a segment are classified from left to right, and a
  \<open><\<close> or \<open>>\<close> that is classified takes the token after it as its file path, whatever
  that token is: a token so taken is not classified (this is \<open>items\<close>, the reading
  that C5 has too). A standalone \<open>&\<close> that is classified, a \<open>Background_mark\<close> among
  the items of its segment, is accepted only in the final segment and only as the
  last token of that segment, with nothing but whitespace after it; a stage is marked
  background exactly when the items of its segment have the mark. A classified \<open>&\<close>
  in a segment that is not the final one, or with another item after it (as in
  \<open>a & b\<close> and in \<open>a & b &\<close>), makes \<open>parse_command\<close> return -1 with a diagnostic.
\<close>

theorem C4_background_mark:
  assumes "MAX_PIPE \<le> length commands"
    and "r = parse_command (Some line) commands n0"
    and "segs = pipe_segments line"
  shows "(ret r = 0 \<longrightarrow>
            (\<forall>i < length segs.
               background (pipeline r ! i) = (Background_mark \<in> set (segment_items (segs ! i))) \<and>
               (Background_mark \<in> set (segment_items (segs ! i)) \<longrightarrow>
                  i = length segs - 1 \<and>
                  last (segment_items (segs ! i)) = Background_mark \<and>
                  Background_mark \<notin> set (butlast (segment_items (segs ! i))) \<and>
                  last (tokens (trim_whitespace (segs ! i))) = ''&'' \<and>
                  (\<exists>pre post. segs ! i = pre @ ''&'' @ post \<and> list_all isspace post)))) \<and>
         ((\<exists>i < length segs.
             Background_mark \<in> set (segment_items (segs ! i)) \<and>
             (i \<noteq> length segs - 1 \<or>
              Background_mark \<in> set (butlast (segment_items (segs ! i))))) \<longrightarrow>
            ret r = - 1 \<and> diag r \<noteq> None)"
proof -
  let ?segs = "pipe_segments line"
  let ?N = "length ?segs"
  have good: "background (pipeline r ! i) = (Background_mark \<in> set (segment_items (?segs ! i))) \<and>
      (Background_mark \<in> set (segment_items (?segs ! i)) \<longrightarrow>
         i = ?N - 1 \<and> last (segment_items (?segs ! i)) = Background_mark \<and>
         Background_mark \<notin> set (butlast (segment_items (?segs ! i))) \<and>
         last (tokens (trim_whitespace (?segs ! i))) = ''&'' \<and>
         (\<exists>pre post. ?segs ! i = pre @ ''&'' @ post \<and> list_all isspace post))"
    if ok: "ret r = 0" and i: "i < ?N" for i
  proof -
    let ?its = "segment_items (?segs ! i)"
    from ok have ok': "ret (parse_command (Some line) commands n0) = 0" by (simp add: assms(2))
    note s = parse_command_sound [OF assms(1) ok']
    from s(1) i have w: "wellformed_stage (i = ?N - 1) ?its"
      unfolding wellformed_line_iff by blast
    from s(2) i have p: "pipeline r ! i = described_stage ?its" by (simp add: assms(2))
    then have b: "background (pipeline r ! i) = (Background_mark \<in> set ?its)"
      by (simp add: described_stage_def)
    have rest: "i = ?N - 1 \<and> last ?its = Background_mark \<and>
        Background_mark \<notin> set (butlast ?its) \<and>
        last (tokens (trim_whitespace (?segs ! i))) = ''&'' \<and>
        (\<exists>pre post. ?segs ! i = pre @ ''&'' @ post \<and> list_all isspace post)"
      if m: "Background_mark \<in> set ?its"
    proof -
      from w m have l: "i = ?N - 1" and nb: "Background_mark \<notin> set (butlast ?its)"
        unfolding wellformed_stage_def stage_shape_def by blast+
      from m have "?its \<noteq> []" by auto
      then have "?its = butlast ?its @ [last ?its]" by simp
      with m nb have la: "last ?its = Background_mark"
        by (metis Un_iff empty_iff empty_set insert_iff list.simps(15) set_append)
      from assms(1) have "?N \<le> MAX_PIPE \<longrightarrow> ?N \<le> length commands" by simp
      then have st: "fst (stage_of (i = ?N - 1) (?segs ! i)) = None"
      proof (cases rule: parse_command_cases [of line commands n0])
        case (failed e cmds')
        with ok' show ?thesis by (simp add: parse_failed_def)
      next
        case (ok cmds')
        from split_pipes_line [OF ok(2)] assms(1) have "?N \<le> length commands" by simp
        from parsed_stage_loop [OF ok(3) this i] show ?thesis .
      qed
      from stage_of_background [OF st m] stage_of_last_token [OF st m] l nb la
      show ?thesis by blast
    qed
    with b show ?thesis by blast
  qed
  have bad: "ret r = - 1 \<and> diag r \<noteq> None"
    if "\<exists>i < ?N. Background_mark \<in> set (segment_items (?segs ! i)) \<and>
         (i \<noteq> ?N - 1 \<or> Background_mark \<in> set (butlast (segment_items (?segs ! i))))"
  proof -
    from that good have nz: "ret r \<noteq> 0" by blast
    then have nz': "ret (parse_command (Some line) commands n0) \<noteq> 0" by (simp add: assms(2))
    from parse_command_ret(1) [of "Some line" commands n0] nz parse_command_ret(3) [OF nz']
    show ?thesis by (simp add: assms(2))
  qed
  from good bad show ?thesis unfolding assms(3) by blast
qed

theorem C4_background_mark_witness:
  "ret (parse_command (Some ''make all | tee log &  '') (replicate 16 empty_command) 0) = 0 \<and>
   background (pipeline (parse_command (Some ''make all | tee log &  '')
     (replicate 16 empty_command) 0) ! 1) \<and>
   \<not> background (pipeline (parse_command (Some ''make all | tee log &  '')
     (replicate 16 empty_command) 0) ! 0) \<and>
   ret (parse_command (Some ''a < < &'') (replicate 16 empty_command) 0) = 0 \<and>
   segment_items (pipe_segments ''a < < &'' ! 0) =
     [Arg ''a'', Redirect_in (Some ''<''), Background_mark] \<and>
   background (pipeline (parse_command (Some ''a < < &'') (replicate 16 empty_command) 0) ! 0) \<and>
   segment_items (pipe_segments ''a < & | b'' ! 0) = [Arg ''a'', Redirect_in (Some ''&'')] \<and>
   \<not> background (pipeline (parse_command (Some ''a < & | b'') (replicate 16 empty_command) 0) ! 0) \<and>
   ret (parse_command (Some ''cmd &  extra'') (replicate 16 empty_command) 0) = - 1 \<and>
   ret (parse_command (Some ''a & b &'') (replicate 16 empty_command) 0) = - 1 \<and>
   ret (parse_command (Some ''a & | b'') (replicate 16 empty_command) 0) = - 1"
proof -
  let ?c = "replicate 16 empty_command"
  have room: "MAX_PIPE \<le> length ?c" by (simp add: MAX_PIPE_def)
  have ok: "ret (parse_command (Some ''make all | tee log &  '') ?c 0) = 0" by code_simp
  have n: "length (pipe_segments ''make all | tee log &  '') = 2" by code_simp
  have m1: "Background_mark \<in> set (segment_items (pipe_segments ''make all | tee log &  '' ! 1))"
    by code_simp
  have m0: "Background_mark \<notin> set (segment_items (pipe_segments ''make all | tee log &  '' ! 0))"
    by code_simp
  note a = C4_background_mark [OF room refl refl, of "''make all | tee log &  ''" 0]
  from a ok n have "background (pipeline (parse_command (Some ''make all | tee log &  '') ?c 0) ! 1) =
      (Background_mark \<in> set (segment_items (pipe_segments ''make all | tee log &  '' ! 1)))"
    and "background (pipeline (parse_command (Some ''make all | tee log &  '') ?c 0) ! 0) =
      (Background_mark \<in> set (segment_items (pipe_segments ''make all | tee log &  '' ! 0)))"
    by simp_all
  with m1 m0 have g: "background (pipeline (parse_command (Some ''make all | tee log &  '') ?c 0) ! 1)"
    "\<not> background (pipeline (parse_command (Some ''make all | tee log &  '') ?c 0) ! 0)"
    by simp_all
  have ok3: "ret (parse_command (Some ''a < < &'') ?c 0) = 0" by code_simp
  have n3: "length (pipe_segments ''a < < &'') = 1" by code_simp
  have i3: "segment_items (pipe_segments ''a < < &'' ! 0) =
      [Arg ''a'', Redirect_in (Some ''<''), Background_mark]"
    by code_simp
  from C4_background_mark [OF room refl refl, of "''a < < &''" 0] ok3 n3
  have "background (pipeline (parse_command (Some ''a < < &'') ?c 0) ! 0) =
      (Background_mark \<in> set (segment_items (pipe_segments ''a < < &'' ! 0)))"
    by simp
  with i3 have g3: "background (pipeline (parse_command (Some ''a < < &'') ?c 0) ! 0)"
    by simp
  have ok4: "ret (parse_command (Some ''a < & | b'') ?c 0) = 0" by code_simp
  have n4: "length (pipe_segments ''a < & | b'') = 2" by code_simp
  have i4: "segment_items (pipe_segments ''a < & | b'' ! 0) =
      [Arg ''a'', Redirect_in (Some ''&'')]"
    by code_simp
  from C4_background_mark [OF room refl refl, of "''a < & | b''" 0] ok4 n4
  have "background (pipeline (parse_command (Some ''a < & | b'') ?c 0) ! 0) =
      (Background_mark \<in> set (segment_items (pipe_segments ''a < & | b'' ! 0)))"
    by simp
  with i4 have g4: "\<not> background (pipeline (parse_command (Some ''a < & | b'') ?c 0) ! 0)"
    by simp
  have e1: "0 < length (pipe_segments ''cmd &  extra'') \<and>
      Background_mark \<in> set (segment_items (pipe_segments ''cmd &  extra'' ! 0)) \<and>
      Background_mark \<in> set (butlast (segment_items (pipe_segments ''cmd &  extra'' ! 0)))"
    by code_simp
  have e2: "0 < length (pipe_segments ''a & | b'') \<and>
      Background_mark \<in> set (segment_items (pipe_segments ''a & | b'' ! 0)) \<and>
      0 \<noteq> length (pipe_segments ''a & | b'') - 1"
    by code_simp
  have e3: "0 < length (pipe_segments ''a & b &'') \<and>
      Background_mark \<in> set (segment_items (pipe_segments ''a & b &'' ! 0)) \<and>
      Background_mark \<in> set (butlast (segment_items (pipe_segments ''a & b &'' ! 0)))"
    by code_simp
  from C4_background_mark [OF room refl refl, of "''cmd &  extra''" 0] e1
  have b1: "ret (parse_command (Some ''cmd &  extra'') ?c 0) = - 1" by blast
  from C4_background_mark [OF room refl refl, of "''a & | b''" 0] e2
  have b2: "ret (parse_command (Some ''a & | b'') ?c 0) = - 1" by blast
  from C4_background_mark [OF room refl refl, of "''a & b &''" 0] e3
  have b3: "ret (parse_command (Some ''a & b &'') ?c 0) = - 1" by blast
  from ok g ok3 i3 g3 i4 g4 b1 b2 b3 show ?thesis by simp
qed

text \<open>
  C5. In a line that parses, every stage is what the items of its segment say: its
  input source is the token after a standalone \<open><\<close>, its output sink the token after
  a standalone \<open>>\<close>, and every other token (such as \<open>a>b\<close>) is an argument, in order.
  No redirection lacks its operand and none occurs twice in a segment: a line in
  which one does makes \<open>parse_command\<close> return -1 with a diagnostic.
\<close>

theorem C5_redirection_tokens:
  assumes "MAX_PIPE \<le> length commands"
    and "r = parse_command (Some line) commands n0"
    and "segs = pipe_segments line"
  shows "(ret r = 0 \<longrightarrow>
            (\<forall>i < length segs.
               args (pipeline r ! i) = item_args (segment_items (segs ! i)) \<and>
               input_file (pipeline r ! i) =
                 (case in_operands (segment_items (segs ! i)) of [] \<Rightarrow> None | f # fs \<Rightarrow> f) \<and>
               output_file (pipeline r ! i) =
                 (case out_operands (segment_items (segs ! i)) of [] \<Rightarrow> None | f # fs \<Rightarrow> f) \<and>
               None \<notin> set (in_operands (segment_items (segs ! i))) \<and>
               None \<notin> set (out_operands (segment_items (segs ! i))) \<and>
               length (in_operands (segment_items (segs ! i))) \<le> 1 \<and>
               length (out_operands (segment_items (segs ! i))) \<le> 1)) \<and>
         ((\<exists>i < length segs.
             None \<in> set (in_operands (segment_items (segs ! i))) \<or>
             None \<in> set (out_operands (segment_items (segs ! i))) \<or>
             1 < length (in_operands (segment_items (segs ! i))) \<or>
             1 < length (out_operands (segment_items (segs ! i)))) \<longrightarrow>
            ret r = - 1 \<and> diag r \<noteq> None)"
proof -
  let ?segs = "pipe_segments line"
  let ?N = "length ?segs"
  have good: "args (pipeline r ! i) = item_args (segment_items (?segs ! i)) \<and>
      input_file (pipeline r ! i) =
        (case in_operands (segment_items (?segs ! i)) of [] \<Rightarrow> None | f # fs \<Rightarrow> f) \<and>
      output_file (pipeline r ! i) =
        (case out_operands (segment_items (?segs ! i)) of [] \<Rightarrow> None | f # fs \<Rightarrow> f) \<and>
      None \<notin> set (in_operands (segment_items (?segs ! i))) \<and>
      None \<notin> set (out_operands (segment_items (?segs ! i))) \<and>
      length (in_operands (segment_items (?segs ! i))) \<le> 1 \<and>
      length (out_operands (segment_items (?segs ! i))) \<le> 1"
    if ok: "ret r = 0" and i: "i < ?N" for i
  proof -
    from ok have ok': "ret (parse_command (Some line) commands n0) = 0" by (simp add: assms(2))
    note s = parse_command_sound [OF assms(1) ok']
    from s(1) i have "wellformed_stage (i = ?N - 1) (segment_items (?segs ! i))"
      unfolding wellformed_line_iff by blast
    moreover from s(2) i have "pipeline r ! i = described_stage (segment_items (?segs ! i))"
      by (simp add: assms(2))
    ultimately show ?thesis
      by (simp add: wellformed_stage_def stage_shape_def described_stage_def)
  qed
  have bad: "ret r = - 1 \<and> diag r \<noteq> None"
    if "\<exists>i < ?N.
         None \<in> set (in_operands (segment_items (?segs ! i))) \<or>
         None \<in> set (out_operands (segment_items (?segs ! i))) \<or>
         1 < length (in_operands (segment_items (?segs ! i))) \<or>
         1 < length (out_operands (segment_items (?segs ! i)))"
  proof -
    from that obtain i where i: "i < ?N"
      and v: "None \<in> set (in_operands (segment_items (?segs ! i))) \<or>
         None \<in> set (out_operands (segment_items (?segs ! i))) \<or>
         1 < length (in_operands (segment_items (?segs ! i))) \<or>
         1 < length (out_operands (segment_items (?segs ! i)))"
      by blast
    have nz: "ret r \<noteq> 0"
    proof
      assume "ret r = 0"
      from good [OF this i] v show False by auto
    qed
    then have nz': "ret (parse_command (Some line) commands n0) \<noteq> 0" by (simp add: assms(2))
    from parse_command_ret(1) [of "Some line" commands n0] nz parse_command_ret(3) [OF nz']
    show ?thesis by (simp add: assms(2))
  qed
  from good bad show ?thesis unfolding assms(3) by blast
qed

theorem C5_redirection_tokens_witness:
  "ret (parse_command (Some ''sort   <  in.txt a>b > out'') (replicate 16 empty_command) 0) = 0 \<and>
   args (pipeline (parse_command (Some ''sort   <  in.txt a>b > out'')
     (replicate 16 empty_command) 0) ! 0) = [''sort'', ''a>b''] \<and>
   input_file (pipeline (parse_command (Some ''sort   <  in.txt a>b > out'')
     (replicate 16 empty_command) 0) ! 0) = Some ''in.txt'' \<and>
   output_file (pipeline (parse_command (Some ''sort   <  in.txt a>b > out'')
     (replicate 16 empty_command) 0) ! 0) = Some ''out'' \<and>
   ret (parse_command (Some ''a > b > c'') (replicate 16 empty_command) 0) = - 1 \<and>
   ret (parse_command (Some ''cat <'') (replicate 16 empty_command) 0) = - 1"
proof -
  let ?c = "replicate 16 empty_command"
  let ?l = "''sort   <  in.txt a>b > out''"
  have room: "MAX_PIPE \<le> length ?c" by (simp add: MAX_PIPE_def)
  have ok: "ret (parse_command (Some ?l) ?c 0) = 0" by code_simp
  have n: "0 < length (pipe_segments ?l)" by code_simp
  have its: "item_args (segment_items (pipe_segments ?l ! 0)) = [''sort'', ''a>b'']"
    "in_operands (segment_items (pipe_segments ?l ! 0)) = [Some ''in.txt'']"
    "out_operands (segment_items (pipe_segments ?l ! 0)) = [Some ''out'']"
    by code_simp+
  from C5_redirection_tokens [OF room refl refl, of ?l 0] ok n
  have "args (pipeline (parse_command (Some ?l) ?c 0) ! 0) =
      item_args (segment_items (pipe_segments ?l ! 0))"
    "input_file (pipeline (parse_command (Some ?l) ?c 0) ! 0) =
      (case in_operands (segment_items (pipe_segments ?l ! 0)) of [] \<Rightarrow> None | f # fs \<Rightarrow> f)"
    "output_file (pipeline (parse_command (Some ?l) ?c 0) ! 0) =
      (case out_operands (segment_items (pipe_segments ?l ! 0)) of [] \<Rightarrow> None | f # fs \<Rightarrow> f)"
    by blast+
  with its have g: "args (pipeline (parse_command (Some ?l) ?c 0) ! 0) = [''sort'', ''a>b'']"
    "input_file (pipeline (parse_command (Some ?l) ?c 0) ! 0) = Some ''in.txt''"
    "output_file (pipeline (parse_command (Some ?l) ?c 0) ! 0) = Some ''out''"
    by simp_all
  have e1: "0 < length (pipe_segments ''a > b > c'') \<and>
      1 < length (out_operands (segment_items (pipe_segments ''a > b > c'' ! 0)))"
    by code_simp
  have e2: "0 < length (pipe_segments ''cat <'') \<and>
      None \<in> set (in_operands (segment_items (pipe_segments ''cat <'' ! 0)))"
    by code_simp
  from C5_redirection_tokens [OF room refl refl, of "''a > b > c''" 0] e1
  have b1: "ret (parse_command (Some ''a > b > c'') ?c 0) = - 1" by blast
  from C5_redirection_tokens [OF room refl refl, of "''cat <''" 0] e2
  have b2: "ret (parse_command (Some ''cat <'') ?c 0) = - 1" by blast
  from ok g b1 b2 show ?thesis by simp
qed

text \<open>
  C6. \<open>MAX_ARGS - 1\<close> is 127 and \<open>MAX_PIPE\<close> is 16. A line of the right shape parses
  exactly when it has at most \<open>MAX_PIPE\<close> segments and each segment has at most
  \<open>MAX_ARGS - 1\<close> arguments; a line that exceeds either limit never parses. So 127
  arguments and 16 segments are accepted, 128 arguments and 17 segments are syntax
  errors.
\<close>

theorem C6_limits:
  assumes "MAX_PIPE \<le> length commands"
    and "r = parse_command (Some line) commands n0"
    and "segs = pipe_segments line"
  shows "MAX_ARGS - 1 = 127 \<and> MAX_PIPE = 16 \<and>
         (line_shape line \<longrightarrow>
            (ret r = 0 \<longleftrightarrow>
               length segs \<le> MAX_PIPE \<and>
               (\<forall>i < length segs. length (item_args (segment_items (segs ! i))) \<le> MAX_ARGS - 1))) \<and>
         (MAX_PIPE < length segs \<or>
          (\<exists>i < length segs. MAX_ARGS - 1 < length (item_args (segment_items (segs ! i)))) \<longrightarrow>
            ret r = - 1 \<and> diag r \<noteq> None)"
proof -
  let ?segs = "pipe_segments line"
  let ?lim = "length ?segs \<le> MAX_PIPE \<and>
      (\<forall>i < length ?segs. length (item_args (segment_items (?segs ! i))) \<le> MAX_ARGS - 1)"
  have lim: "within_limits line \<longleftrightarrow> ?lim"
    by (simp add: within_limits_def list_all_length)
  have sound: "?lim" if "ret r = 0"
  proof -
    from that have "ret (parse_command (Some line) commands n0) = 0" by (simp add: assms(2))
    from parse_command_sound(1) [OF assms(1) this] lim show ?thesis
      by (simp add: wellformed_line_def)
  qed
  have complete: "ret r = 0" if "line_shape line" "?lim"
  proof -
    from that lim have "wellformed_line line" by (simp add: wellformed_line_def)
    from parse_command_complete [OF assms(1) this] show ?thesis by (simp add: assms(2))
  qed
  have over: "ret r = - 1 \<and> diag r \<noteq> None" if "\<not> ?lim"
  proof -
    from that sound have nz: "ret r \<noteq> 0" by blast
    then have nz': "ret (parse_command (Some line) commands n0) \<noteq> 0" by (simp add: assms(2))
    from parse_command_ret(1) [of "Some line" commands n0] nz parse_command_ret(3) [OF nz']
    show ?thesis by (simp add: assms(2))
  qed
  have "MAX_ARGS - 1 = 127" "MAX_PIPE = 16" by (simp_all add: MAX_ARGS_def MAX_PIPE_def)
  moreover have "line_shape line \<longrightarrow> (ret r = 0 \<longleftrightarrow> ?lim)"
    using sound complete by blast
  moreover have "MAX_PIPE < length ?segs \<or>
      (\<exists>i < length ?segs. MAX_ARGS - 1 < length (item_args (segment_items (?segs ! i)))) \<longrightarrow>
      ret r = - 1 \<and> diag r \<noteq> None"
  proof
    assume "MAX_PIPE < length ?segs \<or>
      (\<exists>i < length ?segs. MAX_ARGS - 1 < length (item_args (segment_items (?segs ! i))))"
    then have "\<not> ?lim" by (auto simp: not_le)
    then show "ret r = - 1 \<and> diag r \<noteq> None" by (rule over)
  qed
  ultimately show ?thesis unfolding assms(3) by blast
qed

theorem C6_limits_witness:
  "ret (parse_command (Some (concat (replicate 127 ''x '')))
     (replicate 16 empty_command) 0) = 0 \<and>
   ret (parse_command (Some (concat (replicate 128 ''x '')))
     (replicate 16 empty_command) 0) = - 1 \<and>
   ret (parse_command (Some (''a'' @ concat (replicate 15 ''|a'')))
     (replicate 16 empty_command) 0) = 0 \<and>
   ret (parse_command (Some (''a'' @ concat (replicate 16 ''|a'')))
     (replicate 16 empty_command) 0) = - 1"
proof -
  let ?c = "replicate 16 empty_command"
  let ?a127 = "concat (replicate 127 ''x '')"
  let ?a128 = "concat (replicate 128 ''x '')"
  let ?s16 = "''a'' @ concat (replicate 15 ''|a'')"
  let ?s17 = "''a'' @ concat (replicate 16 ''|a'')"
  have room: "MAX_PIPE \<le> length ?c" by (simp add: MAX_PIPE_def)
  have sh127: "line_shape ?a127" by code_simp
  have n127: "length (pipe_segments ?a127) = 1" by code_simp
  have l127: "length (item_args (segment_items (pipe_segments ?a127 ! 0))) = 127" by code_simp
  have n128: "length (pipe_segments ?a128) = 1" by code_simp
  have l128: "length (item_args (segment_items (pipe_segments ?a128 ! 0))) = 128" by code_simp
  have sh16: "line_shape ?s16" by code_simp
  have n16: "length (pipe_segments ?s16) = 16" by code_simp
  have l16: "list_all (\<lambda>segment. length (item_args (segment_items segment)) \<le> MAX_ARGS - 1)
      (pipe_segments ?s16)" by code_simp
  have n17: "length (pipe_segments ?s17) = 17" by code_simp
  have lim127: "length (pipe_segments ?a127) \<le> MAX_PIPE \<and>
      (\<forall>i < length (pipe_segments ?a127).
         length (item_args (segment_items (pipe_segments ?a127 ! i))) \<le> MAX_ARGS - 1)"
    using n127 l127 by (simp add: MAX_PIPE_def MAX_ARGS_def)
  have over128: "\<exists>i < length (pipe_segments ?a128).
      MAX_ARGS - 1 < length (item_args (segment_items (pipe_segments ?a128 ! i)))"
    using n128 l128 by (simp add: MAX_ARGS_def)
  have lim16: "length (pipe_segments ?s16) \<le> MAX_PIPE \<and>
      (\<forall>i < length (pipe_segments ?s16).
         length (item_args (segment_items (pipe_segments ?s16 ! i))) \<le> MAX_ARGS - 1)"
    using n16 l16 by (simp add: MAX_PIPE_def list_all_length)
  have over17: "MAX_PIPE < length (pipe_segments ?s17)"
    using n17 by (simp add: MAX_PIPE_def)
  have "ret (parse_command (Some ?a127) ?c 0) = 0"
    using C6_limits [OF room refl refl, of ?a127 0] sh127 lim127 by blast
  moreover have "ret (parse_command (Some ?a128) ?c 0) = - 1"
    using C6_limits [OF room refl refl, of ?a128 0] over128 by blast
  moreover have "ret (parse_command (Some ?s16) ?c 0) = 0"
    using C6_limits [OF room refl refl, of ?s16 0] sh16 lim16 by blast
  moreover have "ret (parse_command (Some ?s17) ?c 0) = - 1"
    using C6_limits [OF room refl refl, of ?s17 0] over17 by blast
  ultimately show ?thesis by simp
qed

section \<open>Claims about the executor\<close>

text \<open>
  C3. \<open>execute_commands\<close>, called with a pipeline that fits the caller's array and
  the \<open>pids\<close> array of \<open>MAX_PIPE\<close> entries, intercepts built-ins only in a pipeline of
  exactly one stage.

  \<^item> A single stage named \<open>exit\<close> returns 2 and makes no system call at all, so no
    process is spawned.
  \<^item> An external pipeline, that is one of more than one stage whatever its stages are
    named, or a single stage named neither \<open>exit\<close> nor \<open>cd\<close>, is run by the spawning
    loop: the working directory stays what it was and \<open>chdir\<close> is never called; once
    the first pipe exists \<open>fork\<close> is called; when every \<open>pipe\<close> succeeds and every
    \<open>fork\<close> answers with a child's pid, the call returns 1 after exactly one \<open>fork\<close>
    per stage, and it ends by waiting for each of these children in order, or for a
    background pipeline by printing the pid of the last one; and the process that
    \<open>fork\<close> creates for stage \<open>k\<close> hands that stage's name and arguments to \<open>execvp\<close>,
    also when the name is \<open>exit\<close> or \<open>cd\<close>.
  \<^item> Whenever the call returns, the value is 1 or 2, and it is 2 only for the
    single-stage \<open>exit\<close>. In the shell process (where no \<open>fork\<close> answers 0) the call
    does return, and everything that is not a single-stage \<open>exit\<close> returns 1.
\<close>

theorem C3_control_signal:
  assumes "num_commands \<le> int (length commands)"
    and "num_commands \<le> int MAX_PIPE"
    and "res = execute_commands os commands num_commands cwd"
  shows "(num_commands = 1 \<and> args (commands ! 0) \<noteq> [] \<and> hd (args (commands ! 0)) = ''exit'' \<longrightarrow>
            res = (Returns 2, cwd, [])) \<and>
         (1 < num_commands \<or>
          (num_commands = 1 \<and> args (commands ! 0) \<noteq> [] \<and>
           hd (args (commands ! 0)) \<noteq> ''exit'' \<and> hd (args (commands ! 0)) \<noteq> ''cd'') \<longrightarrow>
            res = run_external os commands num_commands cwd \<and>
            fst (snd res) = cwd \<and>
            (\<forall>dir. Call_chdir dir \<notin> set (snd (snd res))) \<and>
            ((1 < num_commands \<longrightarrow> pipe_result os 0 \<noteq> None) \<longrightarrow>
               Call_fork \<in> set (snd (snd res))) \<and>
            ((\<forall>i < nat num_commands. 0 < fork_result os i \<and>
                 (i < nat num_commands - 1 \<longrightarrow> pipe_result os i \<noteq> None)) \<longrightarrow>
               fst res = Returns 1 \<and>
               count_list (snd (snd res)) Call_fork = nat num_commands \<and>
               (background (commands ! (nat num_commands - 1)) \<longrightarrow>
                  last (snd (snd res)) =
                    Print_job (Some (fork_result os (nat num_commands - 1)))) \<and>
               (\<not> background (commands ! (nat num_commands - 1)) \<longrightarrow>
                  (\<exists>evs. snd (snd res) =
                     evs @ map Call_waitpid (map (fork_result os) [0..<nat num_commands])))) \<and>
            (\<forall>k name rest.
               k < nat num_commands \<and> (\<forall>j < k. 0 < fork_result os j) \<and>
               (\<forall>j \<le> k. j < nat num_commands - 1 \<longrightarrow> pipe_result os j \<noteq> None) \<and>
               fork_result os k = 0 \<and> fst (redirect_io os (commands ! k)) = 0 \<and>
               args (commands ! k) = name # rest \<and> execvp_found os name \<longrightarrow>
               fst res = Child_runs name (name # rest))) \<and>
         (\<forall>v. fst res = Returns v \<longrightarrow>
            (v = 1 \<or> v = 2) \<and>
            (v = 2 \<longrightarrow> num_commands = 1 \<and> args (commands ! 0) \<noteq> [] \<and>
               hd (args (commands ! 0)) = ''exit'')) \<and>
         ((\<forall>i. fork_result os i \<noteq> 0) \<longrightarrow> (\<exists>v. fst res = Returns v)) \<and>
         ((\<forall>i. fork_result os i \<noteq> 0) \<and>
          \<not> (num_commands = 1 \<and> args (commands ! 0) \<noteq> [] \<and>
             hd (args (commands ! 0)) = ''exit'') \<longrightarrow>
            fst res = Returns 1)"
proof -
  let ?exit = "num_commands = 1 \<and> args (commands ! 0) \<noteq> [] \<and> hd (args (commands ! 0)) = ''exit''"
  let ?ext = "1 < num_commands \<or>
          (num_commands = 1 \<and> args (commands ! 0) \<noteq> [] \<and>
           hd (args (commands ! 0)) \<noteq> ''exit'' \<and> hd (args (commands ! 0)) \<noteq> ''cd'')"
  let ?run = "run_external os commands num_commands cwd"
  note res = assms(3)
  have c1: "?exit \<longrightarrow> res = (Returns 2, cwd, [])"
    by (simp add: res execute_commands_def)
  have c2: "?ext \<longrightarrow>
            res = ?run \<and>
            fst (snd res) = cwd \<and>
            (\<forall>dir. Call_chdir dir \<notin> set (snd (snd res))) \<and>
            ((1 < num_commands \<longrightarrow> pipe_result os 0 \<noteq> None) \<longrightarrow>
               Call_fork \<in> set (snd (snd res))) \<and>
            ((\<forall>i < nat num_commands. 0 < fork_result os i \<and>
                 (i < nat num_commands - 1 \<longrightarrow> pipe_result os i \<noteq> None)) \<longrightarrow>
               fst res = Returns 1 \<and>
               count_list (snd (snd res)) Call_fork = nat num_commands \<and>
               (background (commands ! (nat num_commands - 1)) \<longrightarrow>
                  last (snd (snd res)) =
                    Print_job (Some (fork_result os (nat num_commands - 1)))) \<and>
               (\<not> background (commands ! (nat num_commands - 1)) \<longrightarrow>
                  (\<exists>evs. snd (snd res) =
                     evs @ map Call_waitpid (map (fork_result os) [0..<nat num_commands])))) \<and>
            (\<forall>k name rest.
               k < nat num_commands \<and> (\<forall>j < k. 0 < fork_result os j) \<and>
               (\<forall>j \<le> k. j < nat num_commands - 1 \<longrightarrow> pipe_result os j \<noteq> None) \<and>
               fork_result os k = 0 \<and> fst (redirect_io os (commands ! k)) = 0 \<and>
               args (commands ! k) = name # rest \<and> execvp_found os name \<longrightarrow>
               fst res = Child_runs name (name # rest))"
  proof
    assume ext: ?ext
    then have pos: "0 < num_commands" by auto
    from ext have eq: "res = ?run"
      by (auto simp: res execute_commands_def Let_def)
    have a: "fst (snd ?run) = cwd" by (rule run_external_cwd)
    have b: "\<forall>dir. Call_chdir dir \<notin> set (snd (snd ?run))"
      by (simp add: run_external_no_chdir)
    have c: "(1 < num_commands \<longrightarrow> pipe_result os 0 \<noteq> None) \<longrightarrow> Call_fork \<in> set (snd (snd ?run))"
      using run_external_forks [OF pos, of os commands cwd] by blast
    have d: "(\<forall>i < nat num_commands. 0 < fork_result os i \<and>
                 (i < nat num_commands - 1 \<longrightarrow> pipe_result os i \<noteq> None)) \<longrightarrow>
               fst ?run = Returns 1 \<and>
               count_list (snd (snd ?run)) Call_fork = nat num_commands \<and>
               (background (commands ! (nat num_commands - 1)) \<longrightarrow>
                  last (snd (snd ?run)) =
                    Print_job (Some (fork_result os (nat num_commands - 1)))) \<and>
               (\<not> background (commands ! (nat num_commands - 1)) \<longrightarrow>
                  (\<exists>evs. snd (snd ?run) =
                     evs @ map Call_waitpid (map (fork_result os) [0..<nat num_commands])))"
    proof
      assume h: "\<forall>i < nat num_commands. 0 < fork_result os i \<and>
                 (i < nat num_commands - 1 \<longrightarrow> pipe_result os i \<noteq> None)"
      then have f: "\<And>j. j < nat num_commands \<Longrightarrow> 0 < fork_result os j"
        and p: "\<And>j. j < nat num_commands - 1 \<Longrightarrow> pipe_result os j \<noteq> None"
        by auto
      note r = run_external_all [of num_commands os commands cwd, OF pos f p]
      from r show "fst ?run = Returns 1 \<and>
               count_list (snd (snd ?run)) Call_fork = nat num_commands \<and>
               (background (commands ! (nat num_commands - 1)) \<longrightarrow>
                  last (snd (snd ?run)) =
                    Print_job (Some (fork_result os (nat num_commands - 1)))) \<and>
               (\<not> background (commands ! (nat num_commands - 1)) \<longrightarrow>
                  (\<exists>evs. snd (snd ?run) =
                     evs @ map Call_waitpid (map (fork_result os) [0..<nat num_commands])))"
        by blast
    qed
    have e: "\<forall>k name rest.
               k < nat num_commands \<and> (\<forall>j < k. 0 < fork_result os j) \<and>
               (\<forall>j \<le> k. j < nat num_commands - 1 \<longrightarrow> pipe_result os j \<noteq> None) \<and>
               fork_result os k = 0 \<and> fst (redirect_io os (commands ! k)) = 0 \<and>
               args (commands ! k) = name # rest \<and> execvp_found os name \<longrightarrow>
               fst ?run = Child_runs name (name # rest)"
      using run_external_child [of _ num_commands os commands _ _ cwd] by blast
    from a b c d e show "res = ?run \<and>
            fst (snd res) = cwd \<and>
            (\<forall>dir. Call_chdir dir \<notin> set (snd (snd res))) \<and>
            ((1 < num_commands \<longrightarrow> pipe_result os 0 \<noteq> None) \<longrightarrow>
               Call_fork \<in> set (snd (snd res))) \<and>
            ((\<forall>i < nat num_commands. 0 < fork_result os i \<and>
                 (i < nat num_commands - 1 \<longrightarrow> pipe_result os i \<noteq> None)) \<longrightarrow>
               fst res = Returns 1 \<and>
               count_list (snd (snd res)) Call_fork = nat num_commands \<and>
               (background (commands ! (nat num_commands - 1)) \<longrightarrow>
                  last (snd (snd res)) =
                    Print_job (Some (fork_result os (nat num_commands - 1)))) \<and>
               (\<not> background (commands ! (nat num_commands - 1)) \<longrightarrow>
                  (\<exists>evs. snd (snd res) =
                     evs @ map Call_waitpid (map (fork_result os) [0..<nat num_commands])))) \<and>
            (\<forall>k name rest.
               k < nat num_commands \<and> (\<forall>j < k. 0 < fork_result os j) \<and>
               (\<forall>j \<le> k. j < nat num_commands - 1 \<longrightarrow> pipe_result os j \<noteq> None) \<and>
               fork_result os k = 0 \<and> fst (redirect_io os (commands ! k)) = 0 \<and>
               args (commands ! k) = name # rest \<and> execvp_found os name \<longrightarrow>
               fst res = Child_runs name (name # rest))"
      unfolding eq by (intro conjI refl)
  qed
  have c3: "\<forall>v. fst res = Returns v \<longrightarrow>
            (v = 1 \<or> v = 2) \<and>
            (v = 2 \<longrightarrow> num_commands = 1 \<and> args (commands ! 0) \<noteq> [] \<and>
               hd (args (commands ! 0)) = ''exit'')"
    by (auto simp: res execute_commands_def builtin_cd_def Let_def
        split: if_splits sum.splits list.splits option.splits dest: run_external_returns)
  have c5: "(\<forall>i. fork_result os i \<noteq> 0) \<and> \<not> ?exit \<longrightarrow> fst res = Returns 1"
  proof
    assume a: "(\<forall>i. fork_result os i \<noteq> 0) \<and> \<not> ?exit"
    then have "fst ?run = Returns 1"
      by (simp add: run_external_parent)
    with a show "fst res = Returns 1"
      by (auto simp: res execute_commands_def builtin_cd_def Let_def split: sum.splits)
  qed
  have c4: "(\<forall>i. fork_result os i \<noteq> 0) \<longrightarrow> (\<exists>v. fst res = Returns v)"
  proof (cases ?exit)
    case True
    with c1 show ?thesis by simp
  next
    case False
    with c5 show ?thesis by blast
  qed
  from c1 c2 c3 c4 c5 show ?thesis by (intro conjI)
qed

theorem C3_control_signal_witness:
  "execute_commands example_os [stage [''exit'']] 1 ''/tmp'' = (Returns 2, ''/tmp'', []) \<and>
   fst (execute_commands example_os [stage [''exit''], stage [''cd'', ''/home/user'']] 2 ''/tmp'') =
     Returns 1 \<and>
   fst (snd (execute_commands example_os
     [stage [''exit''], stage [''cd'', ''/home/user'']] 2 ''/tmp'')) = ''/tmp'' \<and>
   Call_chdir ''/home/user'' \<notin> set (snd (snd (execute_commands example_os
     [stage [''exit''], stage [''cd'', ''/home/user'']] 2 ''/tmp''))) \<and>
   count_list (snd (snd (execute_commands example_os
     [stage [''exit''], stage [''cd'', ''/home/user'']] 2 ''/tmp''))) Call_fork = 2 \<and>
   (\<exists>evs. snd (snd (execute_commands example_os
     [stage [''exit''], stage [''cd'', ''/home/user'']] 2 ''/tmp'')) =
     evs @ [Call_waitpid 100, Call_waitpid 101]) \<and>
   fst (execute_commands (example_os\<lparr>fork_result := (\<lambda>i. if i = 1 then 0 else 100)\<rparr>)
     [stage [''exit''], stage [''cd'', ''/home/user'']] 2 ''/tmp'') =
     Child_runs ''cd'' [''cd'', ''/home/user'']"
proof -
  let ?one = "[stage [''exit'']]"
  let ?two = "[stage [''exit''], stage [''cd'', ''/home/user'']]"
  let ?os = "example_os\<lparr>fork_result := (\<lambda>i. if i = 1 then 0 else 100)\<rparr>"
  have len1: "(1::int) \<le> int (length ?one)" by simp
  have len2: "(2::int) \<le> int (length ?two)" by simp
  have max1: "(1::int) \<le> int MAX_PIPE" by (simp add: MAX_PIPE_def)
  have max2: "(2::int) \<le> int MAX_PIPE" by (simp add: MAX_PIPE_def)
  have all: "\<forall>i < nat 2. 0 < fork_result example_os i \<and>
      (i < nat 2 - 1 \<longrightarrow> pipe_result example_os i \<noteq> None)"
    by (simp add: example_os_def)
  have fg: "\<not> background (?two ! (nat 2 - 1))" by (simp add: stage_def)
  have pids: "map Call_waitpid (map (fork_result example_os) [0..<nat 2]) =
      [Call_waitpid 100, Call_waitpid 101]"
    by (simp add: example_os_def upt_conv_Cons)
  have child: "(1::nat) < nat 2 \<and> (\<forall>j < 1. 0 < fork_result ?os j) \<and>
      (\<forall>j \<le> 1. j < nat 2 - 1 \<longrightarrow> pipe_result ?os j \<noteq> None) \<and>
      fork_result ?os 1 = 0 \<and> fst (redirect_io ?os (?two ! 1)) = 0 \<and>
      args (?two ! 1) = ''cd'' # [''/home/user''] \<and> execvp_found ?os ''cd''"
    by (simp add: example_os_def stage_def redirect_io_def redirect_input_def redirect_output_def)
  have ext: "(1::int) < 2 \<or>
      ((2::int) = 1 \<and> args (?two ! 0) \<noteq> [] \<and>
       hd (args (?two ! 0)) \<noteq> ''exit'' \<and> hd (args (?two ! 0)) \<noteq> ''cd'')"
    by simp
  from C3_control_signal [OF len1 max1 refl, of example_os "''/tmp''"]
  have "execute_commands example_os ?one 1 ''/tmp'' = (Returns 2, ''/tmp'', [])"
    by (simp add: stage_def)
  moreover from C3_control_signal [OF len2 max2 refl, of example_os "''/tmp''"] ext all fg
  have "fst (execute_commands example_os ?two 2 ''/tmp'') = Returns 1"
    and "fst (snd (execute_commands example_os ?two 2 ''/tmp'')) = ''/tmp''"
    and "Call_chdir ''/home/user'' \<notin> set (snd (snd (execute_commands example_os ?two 2 ''/tmp'')))"
    and "count_list (snd (snd (execute_commands example_os ?two 2 ''/tmp''))) Call_fork = nat 2"
    and "\<exists>evs. snd (snd (execute_commands example_os ?two 2 ''/tmp'')) =
       evs @ map Call_waitpid (map (fork_result example_os) [0..<nat 2])"
    by blast+
  moreover from C3_control_signal [OF len2 max2 refl, of ?os "''/tmp''"] ext child
  have "fst (execute_commands ?os ?two 2 ''/tmp'') = Child_runs ''cd'' [''cd'', ''/home/user'']"
    by blast
  ultimately show ?thesis unfolding pids by simp
qed

text \<open>
  C7. A single stage named \<open>cd\<close> calls \<open>chdir\<close> with its first argument, or without
  an argument with the value of \<open>HOME\<close>, or with \<open>.\<close> when \<open>HOME\<close> is unset. When
  \<open>chdir\<close> succeeds the working directory is the one the kernel changed to; when it
  fails the working directory is unchanged and the message on stderr names the path
  and the reason; \<open>execute_commands\<close> returns 1 in both cases.
\<close>

theorem C7_cd_builtin:
  assumes "1 \<le> length commands"
    and "args (commands ! 0) = ''cd'' # rest"
    and "dir = (case rest of a # others \<Rightarrow> a
                | [] \<Rightarrow> (case getenv_HOME os of Some home \<Rightarrow> home | None \<Rightarrow> ''.''))"
  shows "(\<forall>cwd'. chdir_result os cwd dir = Inr cwd' \<longrightarrow>
            execute_commands os commands 1 cwd = (Returns 1, cwd', [Call_chdir dir])) \<and>
         (\<forall>reason. chdir_result os cwd dir = Inl reason \<longrightarrow>
            execute_commands os commands 1 cwd =
              (Returns 1, cwd,
               [Call_chdir dir,
                Write_stderr (''cd: '' @ dir @ '': '' @ reason @ [CHR 0x0A])]))"
  using assms
  by (auto simp: execute_commands_def builtin_cd_def Let_def split: list.splits option.splits)

theorem C7_cd_builtin_witness:
  "execute_commands example_os [stage [''cd'']] 1 ''/tmp'' =
     (Returns 1, ''/home/user'', [Call_chdir ''/home/user'']) \<and>
   execute_commands example_os [stage [''cd'', ''/nonexistent'']] 1 ''/tmp'' =
     (Returns 1, ''/tmp'',
      [Call_chdir ''/nonexistent'',
       Write_stderr (''cd: /nonexistent: No such file or directory'' @ [CHR 0x0A])]) \<and>
   execute_commands (example_os\<lparr>getenv_HOME := None\<rparr>) [stage [''cd'']] 1 ''/tmp'' =
     (Returns 1, ''/tmp'',
      [Call_chdir ''.'', Write_stderr (''cd: .: No such file or directory'' @ [CHR 0x0A])])"
proof -
  have a: "execute_commands example_os [stage [''cd'']] 1 ''/tmp'' =
     (Returns 1, ''/home/user'', [Call_chdir ''/home/user''])"
    using C7_cd_builtin [of "[stage [''cd'']]" "[]" "''/home/user''" example_os "''/tmp''"]
    by (simp add: stage_def example_os_def)
  have b: "execute_commands example_os [stage [''cd'', ''/nonexistent'']] 1 ''/tmp'' =
     (Returns 1, ''/tmp'',
      [Call_chdir ''/nonexistent'',
       Write_stderr (''cd: /nonexistent: No such file or directory'' @ [CHR 0x0A])])"
    using C7_cd_builtin [of "[stage [''cd'', ''/nonexistent'']]" "[''/nonexistent'']"
        "''/nonexistent''" example_os "''/tmp''"]
    by (simp add: stage_def example_os_def)
  have c: "execute_commands (example_os\<lparr>getenv_HOME := None\<rparr>) [stage [''cd'']] 1 ''/tmp'' =
     (Returns 1, ''/tmp'',
      [Call_chdir ''.'', Write_stderr (''cd: .: No such file or directory'' @ [CHR 0x0A])])"
    using C7_cd_builtin [of "[stage [''cd'']]" "[]" "''.''" "example_os\<lparr>getenv_HOME := None\<rparr>"
        "''/tmp''"]
    by (simp add: stage_def example_os_def)
  from a b c show ?thesis by simp
qed

text \<open>
  C10. For a single stage whose first argument is \<open>exit\<close> or \<open>cd\<close> the result of
  \<open>execute_commands\<close> does not depend on the stage's background flag, input source
  or output sink, and the only events are the \<open>chdir\<close> call and the message of a
  failed \<open>cd\<close>: no file is opened, no process is forked, no job number is printed.
  So the stage parsed from \<open>exit &\<close> (which has the background flag) returns 2 with no
  event at all, and the stage parsed from \<open>cd dir > file\<close> (which has the output sink
  \<open>file\<close>) only calls \<open>chdir\<close> with \<open>dir\<close>.
\<close>

theorem C10_builtins_first:
  assumes "1 \<le> length commands"
    and "args (commands ! 0) \<noteq> []"
    and "hd (args (commands ! 0)) = ''exit'' \<or> hd (args (commands ! 0)) = ''cd''"
    and "MAX_PIPE \<le> length array"
    and "r1 = parse_command (Some ''exit &'') array n0"
    and "r2 = parse_command (Some ''cd dir > file'') array n0"
  shows "execute_commands os
            (commands[0 := (commands ! 0)\<lparr>input_file := inp, output_file := outp,
                                          background := bg\<rparr>]) 1 cwd =
           execute_commands os commands 1 cwd \<and>
         (\<forall>e \<in> set (snd (snd (execute_commands os commands 1 cwd))).
            (\<exists>dir. e = Call_chdir dir) \<or> (\<exists>msg. e = Write_stderr msg)) \<and>
         (hd (args (commands ! 0)) = ''exit'' \<longrightarrow>
            execute_commands os commands 1 cwd = (Returns 2, cwd, [])) \<and>
         ret r1 = 0 \<and> num_out r1 = 1 \<and> background (commands_out r1 ! 0) \<and>
         execute_commands os (commands_out r1) (num_out r1) cwd = (Returns 2, cwd, []) \<and>
         ret r2 = 0 \<and> num_out r2 = 1 \<and> output_file (commands_out r2 ! 0) = Some ''file'' \<and>
         execute_commands os (commands_out r2) (num_out r2) cwd =
           (case chdir_result os cwd ''dir'' of
              Inr cwd' \<Rightarrow> (Returns 1, cwd', [Call_chdir ''dir''])
            | Inl reason \<Rightarrow>
                (Returns 1, cwd,
                 [Call_chdir ''dir'',
                  Write_stderr (''cd: dir: '' @ reason @ [CHR 0x0A])]))"
proof -
  from assms(1) have z: "0 < length commands" by (cases commands) auto
  have indep: "execute_commands os
      (commands[0 := (commands ! 0)\<lparr>input_file := inp, output_file := outp, background := bg\<rparr>])
      1 cwd = execute_commands os commands 1 cwd"
    using z assms(2,3)
    by (auto simp: execute_commands_def builtin_cd_def Let_def
        split: list.splits sum.splits option.splits)
  have events: "\<forall>e \<in> set (snd (snd (execute_commands os commands 1 cwd))).
      (\<exists>dir. e = Call_chdir dir) \<or> (\<exists>msg. e = Write_stderr msg)"
    using assms(2,3)
    by (auto simp: execute_commands_def builtin_cd_def Let_def split: sum.splits)
  have ex: "hd (args (commands ! 0)) = ''exit'' \<longrightarrow>
      execute_commands os commands 1 cwd = (Returns 2, cwd, [])"
    using assms(2) by (simp add: execute_commands_def)
  have w1: "wellformed_line ''exit &''" by code_simp
  have s1: "length (pipe_segments ''exit &'') = 1" by code_simp
  have d1: "described_stage (segment_items (pipe_segments ''exit &'' ! 0)) =
      \<lparr>args = [''exit''], input_file = None, output_file = None, background = True\<rparr>"
    by code_simp
  note p1 = parsed_single_stage [OF assms(4) w1 s1, of n0]
  have w2: "wellformed_line ''cd dir > file''" by code_simp
  have s2: "length (pipe_segments ''cd dir > file'') = 1" by code_simp
  have d2: "described_stage (segment_items (pipe_segments ''cd dir > file'' ! 0)) =
      \<lparr>args = [''cd'', ''dir''], input_file = None, output_file = Some ''file'',
       background = False\<rparr>"
    by code_simp
  note p2 = parsed_single_stage [OF assms(4) w2 s2, of n0]
  from p1 d1 have a1: "ret r1 = 0" "num_out r1 = 1" "background (commands_out r1 ! 0)"
    "execute_commands os (commands_out r1) (num_out r1) cwd = (Returns 2, cwd, [])"
    by (simp_all add: assms(5) execute_commands_def)
  from p2 d2 have a2: "ret r2 = 0" "num_out r2 = 1"
    "output_file (commands_out r2 ! 0) = Some ''file''"
    "execute_commands os (commands_out r2) (num_out r2) cwd =
       (case chdir_result os cwd ''dir'' of
          Inr cwd' \<Rightarrow> (Returns 1, cwd', [Call_chdir ''dir''])
        | Inl reason \<Rightarrow>
            (Returns 1, cwd,
             [Call_chdir ''dir'', Write_stderr (''cd: dir: '' @ reason @ [CHR 0x0A])]))"
    by (simp_all add: assms(6) execute_commands_def builtin_cd_def split: sum.splits)
  from indep events ex a1 a2 show ?thesis by blast
qed

theorem C10_builtins_first_witness:
  "execute_commands example_os
     [\<lparr>args = [''exit''], input_file = Some ''in'', output_file = Some ''out'',
       background = True\<rparr>] 1 ''/tmp'' = (Returns 2, ''/tmp'', []) \<and>
   background (commands_out (parse_command (Some ''exit &'') (replicate 16 empty_command) 0) ! 0) \<and>
   execute_commands example_os
     (commands_out (parse_command (Some ''exit &'') (replicate 16 empty_command) 0))
     (num_out (parse_command (Some ''exit &'') (replicate 16 empty_command) 0)) ''/tmp'' =
     (Returns 2, ''/tmp'', []) \<and>
   output_file (commands_out (parse_command (Some ''cd dir > file'')
     (replicate 16 empty_command) 0) ! 0) = Some ''file'' \<and>
   execute_commands example_os
     (commands_out (parse_command (Some ''cd dir > file'') (replicate 16 empty_command) 0))
     (num_out (parse_command (Some ''cd dir > file'') (replicate 16 empty_command) 0)) ''/tmp'' =
     (Returns 1, ''/tmp'',
      [Call_chdir ''dir'', Write_stderr (''cd: dir: No such file or directory'' @ [CHR 0x0A])])"
proof -
  let ?cmds = "[\<lparr>args = [''exit''], input_file = Some ''in'', output_file = Some ''out'',
       background = True\<rparr>]"
  have h1: "1 \<le> length ?cmds" by simp
  have h2: "args (?cmds ! 0) \<noteq> []" by simp
  have h3: "hd (args (?cmds ! 0)) = ''exit'' \<or> hd (args (?cmds ! 0)) = ''cd''" by simp
  have h4: "MAX_PIPE \<le> length (replicate 16 empty_command)" by (simp add: MAX_PIPE_def)
  have c: "chdir_result example_os ''/tmp'' ''dir'' = Inl ''No such file or directory''"
    by (simp add: example_os_def)
  note inst = C10_builtins_first [where os = example_os and cwd = "''/tmp''" and ?n0.0 = 0
      and inp = None and outp = None and bg = False,
      OF h1 h2 h3 h4 refl refl]
  from inst have "execute_commands example_os ?cmds 1 ''/tmp'' = (Returns 2, ''/tmp'', [])"
    by simp
  moreover from inst
  have "background (commands_out (parse_command (Some ''exit &'') (replicate 16 empty_command) 0) ! 0)"
    and "execute_commands example_os
     (commands_out (parse_command (Some ''exit &'') (replicate 16 empty_command) 0))
     (num_out (parse_command (Some ''exit &'') (replicate 16 empty_command) 0)) ''/tmp'' =
     (Returns 2, ''/tmp'', [])"
    and "output_file (commands_out (parse_command (Some ''cd dir > file'')
     (replicate 16 empty_command) 0) ! 0) = Some ''file''"
    by blast+
  moreover from inst [unfolded c sum.case] have "execute_commands example_os
     (commands_out (parse_command (Some ''cd dir > file'') (replicate 16 empty_command) 0))
     (num_out (parse_command (Some ''cd dir > file'') (replicate 16 empty_command) 0)) ''/tmp'' =
     (Returns 1, ''/tmp'',
      [Call_chdir ''dir'', Write_stderr (''cd: dir: '' @ ''No such file or directory'' @ [CHR 0x0A])])"
    by blast
  then have "execute_commands example_os
     (commands_out (parse_command (Some ''cd dir > file'') (replicate 16 empty_command) 0))
     (num_out (parse_command (Some ''cd dir > file'') (replicate 16 empty_command) 0)) ''/tmp'' =
     (Returns 1, ''/tmp'',
      [Call_chdir ''dir'', Write_stderr (''cd: dir: No such file or directory'' @ [CHR 0x0A])])"
    by simp
  ultimately show ?thesis by blast
qed

end
